theory Spec2Isabelle
  imports Main "HOL-Library.Word"
begin

section \<open>Machine types and printf conversions\<close>

text \<open>
  The tracer is written for an LP64 target: \<^verbatim>\<open>size_t\<close>, \<^verbatim>\<open>unw_word_t\<close> and
  \<^verbatim>\<open>void*\<close> are 64-bit words (the source prints all of them with \<^verbatim>\<open>%lu\<close>,
  \<^verbatim>\<open>%lx\<close> and \<^verbatim>\<open>%ld\<close>).
\<close>

type_synonym size_t = "64 word"
type_synonym unw_word_t = "64 word"
type_synonym pointer = "64 word"

definition digit_char :: "nat \<Rightarrow> char" where
  "digit_char d = ''0123456789abcdef'' ! d"

fun fmt_dec :: "nat \<Rightarrow> string" where
  "fmt_dec n = (if n < 10 then [digit_char n] else fmt_dec (n div 10) @ [digit_char (n mod 10)])"

fun fmt_hex :: "nat \<Rightarrow> string" where
  "fmt_hex n = (if n < 16 then [digit_char n] else fmt_hex (n div 16) @ [digit_char (n mod 16)])"

declare fmt_dec.simps [simp del]
declare fmt_hex.simps [simp del]

text \<open>\<^verbatim>\<open>%lu\<close>: the word read as an unsigned number, in decimal.\<close>

definition fmt_lu :: "64 word \<Rightarrow> string" where
  "fmt_lu w = fmt_dec (unat w)"

text \<open>\<^verbatim>\<open>%lx\<close>: the word read as an unsigned number, in lower-case hexadecimal.\<close>

definition fmt_lx :: "64 word \<Rightarrow> string" where
  "fmt_lx w = fmt_hex (unat w)"

text \<open>\<^verbatim>\<open>%ld\<close>: the word read as a two's complement number, in decimal.\<close>

definition fmt_ld :: "64 word \<Rightarrow> string" where
  "fmt_ld w = (if sint w < 0 then ''-'' @ fmt_dec (nat (- sint w)) else fmt_dec (nat (sint w)))"

text \<open>
  \<^verbatim>\<open>%p\<close> as the GNU C library prints it: \<^verbatim>\<open>(nil)\<close> for the null pointer,
  \<^verbatim>\<open>0x\<close> and the address in hexadecimal otherwise.
\<close>

definition fmt_p :: "pointer \<Rightarrow> string" where
  "fmt_p p = (if p = 0 then ''(nil)'' else ''0x'' @ fmt_hex (unat p))"

text \<open>\<^verbatim>\<open>std::to_string\<close> on an \<^verbatim>\<open>int\<close> (the process id).\<close>

definition to_string_int :: "int \<Rightarrow> string" where
  "to_string_int i = (if i < 0 then ''-'' @ fmt_dec (nat (- i)) else fmt_dec (nat i))"

section \<open>C strings in a buffer\<close>

text \<open>
  A \<^verbatim>\<open>char name[256]\<close> buffer is the list of its leading bytes; every byte beyond the
  list is NUL. The C string it holds ends before the first NUL, whatever follows.
\<close>

definition NUL :: char where
  "NUL = CHR 0x00"

definition newline :: char where
  "newline = CHR 0x0A"

definition buf_at :: "string \<Rightarrow> nat \<Rightarrow> char" where
  "buf_at b i = (if i < length b then b ! i else NUL)"

definition c_str :: "string \<Rightarrow> string" where
  "c_str b = takeWhile (\<lambda>c. c \<noteq> NUL) b"

text \<open>\<^verbatim>\<open>!strcmp(a, b)\<close>: the two C strings are equal.\<close>

definition strcmp_eq :: "string \<Rightarrow> string \<Rightarrow> bool" where
  "strcmp_eq a b = (c_str a = c_str b)"

section \<open>Frame cache and thread session\<close>

record IPCacheEntry =
  id' :: size_t
  skip :: bool
  stop :: bool

text \<open>
  What the unwinder delivers at one position of the cursor: the instruction pointer
  (\<^verbatim>\<open>unw_get_reg\<close>), and the name buffer and offset that \<^verbatim>\<open>unw_get_proc_name\<close>
  leaves (the buffer starts with NUL when the call wrote nothing).
\<close>

record frame =
  frame_ip :: unw_word_t
  proc_name :: string
  proc_offset :: unw_word_t

text \<open>
  An open stream: its path and the content of the file as this stream leaves it
  (what the open kept of the file, then everything written since).
\<close>

record FILE =
  path :: string
  content :: string

record ThreadData =
  ipCache :: "unw_word_t \<rightharpoonup> IPCacheEntry"
  thread_id :: size_t
  out :: FILE

definition fprintf :: "string \<Rightarrow> ThreadData \<Rightarrow> ThreadData" where
  "fprintf s td = td\<lparr>out := (out td)\<lparr>content := content (out td) @ s\<rparr>\<rparr>"

section \<open>print_caller\<close>

text \<open>
  The test on the name buffer, in the order the source reads the bytes:
  \<^verbatim>\<open>name[0] == '_' && name[1] == 'Z' && name[2] == 'n' && name[4] == 'm'
  && name[5] == '\0' && (name[3] == 'w' || name[3] == 'a')\<close>.
\<close>

definition is_operator_new :: "string \<Rightarrow> bool" where
  "is_operator_new name =
     (buf_at name 0 = CHR ''_'' \<and> buf_at name 1 = CHR ''Z'' \<and> buf_at name 2 = CHR ''n''
      \<and> buf_at name 4 = CHR ''m'' \<and> buf_at name 5 = NUL
      \<and> (buf_at name 3 = CHR ''w'' \<or> buf_at name 3 = CHR ''a''))"

definition is_entry_point :: "string \<Rightarrow> bool" where
  "is_entry_point name = (strcmp_eq name ''main'' \<or> strcmp_eq name ''_GLOBAL__sub_I_main'')"

text \<open>
  The \<^verbatim>\<open>while (unw_step(&cursor) > 0)\<close> loop. The list holds the frames the cursor
  reaches, innermost first; \<^verbatim>\<open>unw_step\<close> fails when the list is empty. The second
  component of the state is the global counter \<^verbatim>\<open>next_cache_id\<close>.
\<close>

fun print_caller_loop :: "frame list \<Rightarrow> ThreadData \<times> size_t \<Rightarrow> ThreadData \<times> size_t" where
  "print_caller_loop [] (td, next_id) = (td, next_id)"
| "print_caller_loop (f # fs) (td, next_id) =
     (case ipCache td (frame_ip f) of
        None \<Rightarrow>
          (let skip_v = is_operator_new (proc_name f);
               stop_v = (\<not> skip_v \<and> is_entry_point (proc_name f));
               id_v = next_id;
               td1 = td\<lparr>ipCache := (ipCache td)(frame_ip f \<mapsto>
                        \<lparr>id' = id_v, skip = skip_v, stop = stop_v\<rparr>)\<rparr>;
               td2 = (if \<not> skip_v
                      then fprintf (fmt_lu id_v @ ''='' @ fmt_lx (frame_ip f) @ ''@''
                                    @ c_str (proc_name f) @ ''+0x'' @ fmt_lx (proc_offset f) @ '';'') td1
                      else td1)
           in if stop_v then (td2, next_id + 1) else print_caller_loop fs (td2, next_id + 1))
      | Some fr \<Rightarrow>
          (let td1 = (if \<not> skip fr then fprintf (fmt_lu (id' fr) @ '';'') td else td)
           in if stop fr then (td1, next_id) else print_caller_loop fs (td1, next_id)))"

text \<open>
  \<^verbatim>\<open>print_caller\<close>: two steps over the tracer's own frames (return when either
  fails), then the loop.
\<close>

definition print_caller :: "frame list \<Rightarrow> ThreadData \<times> size_t \<Rightarrow> ThreadData \<times> size_t" where
  "print_caller frames s =
     (case frames of
        [] \<Rightarrow> s
      | [_] \<Rightarrow> s
      | _ # _ # rest \<Rightarrow> print_caller_loop rest s)"

section \<open>Process state and its environment\<close>

text \<open>
  A fatal path of the source writes one diagnostic to the standard error stream and calls
  \<^verbatim>\<open>exit(1)\<close>: the value \<open>Exit status diagnostic\<close>. A function that can take such
  a path returns \<open>Inl\<close> of it, and \<open>Inr\<close> of its result otherwise.
\<close>

datatype fatal = Exit (status: int) (diagnostic: string)

text \<open>
  The collaborators of the tracer, none of them under its control: the allocator that
  \<^verbatim>\<open>dlsym(RTLD_NEXT, ...)\<close> resolves (each function maps its arguments and the
  allocator's own state \<open>'h\<close> to its result and the new state; \<open>libc_posix_memalign\<close>
  also takes the value that \<^verbatim>\<open>*memptr\<close> holds before the call and returns the value it
  holds after), whether \<^verbatim>\<open>dlsym\<close> finds a symbol, the environment variables, the
  process id, whether a path can be opened for writing, what the files hold, and the
  address at which the static array \<^verbatim>\<open>buf\<close> of \<^verbatim>\<open>dummy_calloc\<close> lies.
\<close>

record 'h env =
  libc_malloc :: "size_t \<Rightarrow> 'h \<Rightarrow> pointer \<times> 'h"
  libc_free :: "pointer \<Rightarrow> 'h \<Rightarrow> 'h"
  libc_realloc :: "pointer \<Rightarrow> size_t \<Rightarrow> 'h \<Rightarrow> pointer \<times> 'h"
  libc_calloc :: "size_t \<Rightarrow> size_t \<Rightarrow> 'h \<Rightarrow> pointer \<times> 'h"
  libc_posix_memalign :: "pointer \<Rightarrow> size_t \<Rightarrow> size_t \<Rightarrow> 'h \<Rightarrow> (int \<times> pointer) \<times> 'h"
  libc_valloc :: "size_t \<Rightarrow> 'h \<Rightarrow> pointer \<times> 'h"
  libc_aligned_alloc :: "size_t \<Rightarrow> size_t \<Rightarrow> 'h \<Rightarrow> pointer \<times> 'h"
  dlsym_next :: "string \<Rightarrow> bool"
  getenv :: "string \<Rightarrow> string option"
  getpid :: int
  can_open :: "string \<Rightarrow> bool"
  existing :: "string \<rightharpoonup> string"
  dummy_buf :: pointer

text \<open>
  The values \<^verbatim>\<open>real_calloc\<close> takes: the null pointer, the address of
  \<^verbatim>\<open>dummy_calloc\<close>, and the function \<^verbatim>\<open>dlsym\<close> found.
\<close>

datatype calloc_t = Nullptr | Dummy_calloc | Found_calloc

text \<open>
  The state one thread sees: its guard flag \<^verbatim>\<open>in_handler\<close>, its \<^verbatim>\<open>threadData\<close>
  (\<open>None\<close> until the thread-local object is constructed), the two global counters,
  the seven \<^verbatim>\<open>real_*\<close> pointers (for the six that are only ever null or what
  \<^verbatim>\<open>dlsym\<close> found, \<open>True\<close> when the pointer is set), the static \<^verbatim>\<open>offset\<close> of
  \<^verbatim>\<open>dummy_calloc\<close>, and the state of the true allocator.

  \<^verbatim>\<open>init\<close> is one step of this model. The calls that \<^verbatim>\<open>dlsym\<close> makes into
  \<^verbatim>\<open>calloc\<close> while \<^verbatim>\<open>init\<close> runs are calls of \<open>calloc\<close> below in a state where
  \<^verbatim>\<open>real_calloc\<close> is \<open>Dummy_calloc\<close>; the model does not interleave them with
  \<^verbatim>\<open>init\<close>, nor the calls that \<^verbatim>\<open>fprintf\<close>, \<^verbatim>\<open>fopen\<close> or the cache make into
  the allocator while the guard is engaged.
\<close>

record 'h state =
  in_handler :: bool
  threadData :: "ThreadData option"
  next_cache_id :: size_t
  next_thread_id :: size_t
  real_malloc :: bool
  real_free :: bool
  real_realloc :: bool
  real_calloc :: calloc_t
  real_posix_memalign :: bool
  real_valloc :: bool
  real_aligned_alloc :: bool
  dummy_calloc_offset :: size_t
  heap :: 'h

section \<open>Bootstrap\<close>

text \<open>
  \<^verbatim>\<open>dummy_calloc\<close> hands out the static array \<^verbatim>\<open>char* buf[MAX_SIZE]\<close> piece by
  piece. \<^verbatim>\<open>buf + oldOffset\<close> is pointer arithmetic on elements of eight bytes, so the
  address returned is \<open>8 * oldOffset\<close> bytes after the start of the array. The array is
  static, hence zero from the start: the \<^verbatim>\<open>memset\<close> changes nothing.
\<close>

definition MAX_SIZE :: size_t where
  "MAX_SIZE = 1024"

definition dummy_calloc ::
  "'h env \<Rightarrow> size_t \<Rightarrow> size_t \<Rightarrow> 'h state \<Rightarrow> fatal + (pointer \<times> 'h state)" where
  "dummy_calloc E num sz st =
     (let oldOffset = dummy_calloc_offset st;
          offset = oldOffset + num * sz;
          st1 = st\<lparr>dummy_calloc_offset := offset\<rparr>
      in if offset \<ge> MAX_SIZE
         then Inl (Exit 1 (''failed to initialize, dummy calloc buf size exhausted: ''
                           @ fmt_lu offset @ '' requested, '' @ fmt_lu MAX_SIZE
                           @ '' available'' @ [newline]))
         else Inr (dummy_buf E + 8 * oldOffset, st1))"

text \<open>
  \<^verbatim>\<open>init\<close> sets \<^verbatim>\<open>real_calloc\<close> to \<^verbatim>\<open>dummy_calloc\<close>, then calls
  \<^verbatim>\<open>findReal\<close> for the seven symbols in this order; the first one that \<^verbatim>\<open>dlsym\<close>
  does not find ends the process.
\<close>

definition real_symbols :: "string list" where
  "real_symbols = [''calloc'', ''malloc'', ''free'', ''realloc'', ''posix_memalign'',
                   ''valloc'', ''aligned_alloc'']"

definition init :: "'h env \<Rightarrow> 'h state \<Rightarrow> fatal + 'h state" where
  "init E st =
     (if in_handler st then Inl (Exit 1 (''initialization recursion detected'' @ [newline]))
      else (let st1 = st\<lparr>in_handler := True, real_calloc := Dummy_calloc\<rparr>
            in case find (\<lambda>nm. \<not> dlsym_next E nm) real_symbols of
                 Some nm \<Rightarrow> Inl (Exit 1 (''could not find original function '' @ nm @ [newline]))
               | None \<Rightarrow>
                   Inr (st1\<lparr>real_calloc := Found_calloc, real_malloc := True, real_free := True,
                            real_realloc := True, real_posix_memalign := True,
                            real_valloc := True, real_aligned_alloc := True,
                            in_handler := False\<rparr>)))"

section \<open>Thread session\<close>

text \<open>\<^verbatim>\<open>env(variable)\<close>: the value of the variable, the empty string when it is unset.\<close>

definition env_value :: "'h env \<Rightarrow> string \<Rightarrow> string" where
  "env_value E variable = (case getenv E variable of Some v \<Rightarrow> v | None \<Rightarrow> [])"

text \<open>
  How the GNU C library's \<^verbatim>\<open>fopen\<close> reads a mode string: the first character alone
  chooses between reading, writing from an emptied file, and appending; of the characters
  after it only \<^verbatim>\<open>+ x b m c e\<close> mean anything, and none of them turns a write into an
  append. Any other first character is refused.
\<close>

datatype open_kind = Open_read | Open_truncate | Open_append

fun fopen_kind :: "string \<Rightarrow> open_kind option" where
  "fopen_kind [] = None"
| "fopen_kind (c # cs) =
     (if c = CHR ''r'' then Some Open_read
      else if c = CHR ''w'' then Some Open_truncate
      else if c = CHR ''a'' then Some Open_append
      else None)"

definition fopen :: "'h env \<Rightarrow> string \<Rightarrow> string \<Rightarrow> FILE option" where
  "fopen E filename mode =
     (case fopen_kind mode of
        None \<Rightarrow> None
      | Some Open_read \<Rightarrow>
          (case existing E filename of
             None \<Rightarrow> None
           | Some old \<Rightarrow> Some \<lparr>path = filename, content = old\<rparr>)
      | Some Open_truncate \<Rightarrow>
          (if can_open E filename then Some \<lparr>path = filename, content = []\<rparr> else None)
      | Some Open_append \<Rightarrow>
          (if can_open E filename
           then Some \<lparr>path = filename,
                      content = (case existing E filename of None \<Rightarrow> [] | Some old \<Rightarrow> old)\<rparr>
           else None))"

text \<open>
  The constructor of \<^verbatim>\<open>ThreadData\<close>. It returns the new object and the state with
  the object installed.
\<close>

definition ThreadData_ctor :: "'h env \<Rightarrow> 'h state \<Rightarrow> fatal + (ThreadData \<times> 'h state)" where
  "ThreadData_ctor E st =
     (let tid = next_thread_id st;
          st1 = st\<lparr>next_thread_id := tid + 1\<rparr>;
          wasInHandler = in_handler st1;
          st2 = st1\<lparr>in_handler := True\<rparr>;
          outputFileName = env_value E ''DUMP_MALLOC_TRACE_OUTPUT'' @ to_string_int (getpid E)
                           @ ''.'' @ fmt_lu tid
      in case fopen E outputFileName ''wa'' of
           None \<Rightarrow> Inl (Exit 1 (''Failed to open output file: '' @ outputFileName @ [newline]))
         | Some f \<Rightarrow>
             (let td = \<lparr>ipCache = Map.empty, thread_id = tid, out = f\<rparr>
              in Inr (td, st2\<lparr>threadData := Some td, in_handler := wasInHandler\<rparr>)))"

text \<open>
  A use of the thread-local \<^verbatim>\<open>threadData\<close>: the object is constructed at the first
  use in the thread.
\<close>

definition threadData_use :: "'h env \<Rightarrow> 'h state \<Rightarrow> fatal + (ThreadData \<times> 'h state)" where
  "threadData_use E st =
     (case threadData st of
        Some td \<Rightarrow> Inr (td, st)
      | None \<Rightarrow> ThreadData_ctor E st)"

section \<open>Event handlers\<close>

definition handleMalloc ::
  "'h env \<Rightarrow> frame list \<Rightarrow> pointer \<Rightarrow> size_t \<Rightarrow> 'h state \<Rightarrow> fatal + 'h state" where
  "handleMalloc E stack ptr sz st =
     (case threadData_use E st of
        Inl e \<Rightarrow> Inl e
      | Inr (td, st1) \<Rightarrow>
          (let td1 = fprintf (''+'' @ fmt_ld sz @ '':'' @ fmt_p ptr @ '' '') td;
               (td2, n) = print_caller stack (td1, next_cache_id st1);
               td3 = fprintf [newline] td2
           in Inr (st1\<lparr>threadData := Some td3, next_cache_id := n\<rparr>)))"

definition handleFree :: "'h env \<Rightarrow> pointer \<Rightarrow> 'h state \<Rightarrow> fatal + 'h state" where
  "handleFree E ptr st =
     (case threadData_use E st of
        Inl e \<Rightarrow> Inl e
      | Inr (td, st1) \<Rightarrow>
          Inr (st1\<lparr>threadData := Some (fprintf (''-'' @ fmt_p ptr @ [newline]) td)\<rparr>))"

section \<open>Interception entry points\<close>

text \<open>
  Every entry point takes the environment, the frames the unwinder would reach from
  \<^verbatim>\<open>print_caller\<close> on this call (not for \<^verbatim>\<open>free\<close>, which walks no stack), its C
  arguments and the state; it returns what the C function returns, and the new state.
\<close>

definition malloc ::
  "'h env \<Rightarrow> frame list \<Rightarrow> size_t \<Rightarrow> 'h state \<Rightarrow> fatal + (pointer \<times> 'h state)" where
  "malloc E stack sz st =
     (case (if \<not> real_malloc st then init E st else Inr st) of
        Inl e \<Rightarrow> Inl e
      | Inr st1 \<Rightarrow>
          (let (ret, h) = libc_malloc E sz (heap st1);
               st2 = st1\<lparr>heap := h\<rparr>
           in if \<not> in_handler st2
              then (case handleMalloc E stack ret sz (st2\<lparr>in_handler := True\<rparr>) of
                      Inl e \<Rightarrow> Inl e
                    | Inr st3 \<Rightarrow> Inr (ret, st3\<lparr>in_handler := False\<rparr>))
              else Inr (ret, st2)))"

definition free :: "'h env \<Rightarrow> pointer \<Rightarrow> 'h state \<Rightarrow> fatal + 'h state" where
  "free E ptr st =
     (case (if \<not> real_free st then init E st else Inr st) of
        Inl e \<Rightarrow> Inl e
      | Inr st1 \<Rightarrow>
          (let st2 = st1\<lparr>heap := libc_free E ptr (heap st1)\<rparr>
           in if \<not> in_handler st2
              then (case handleFree E ptr (st2\<lparr>in_handler := True\<rparr>) of
                      Inl e \<Rightarrow> Inl e
                    | Inr st3 \<Rightarrow> Inr (st3\<lparr>in_handler := False\<rparr>))
              else Inr st2))"

definition realloc ::
  "'h env \<Rightarrow> frame list \<Rightarrow> pointer \<Rightarrow> size_t \<Rightarrow> 'h state \<Rightarrow> fatal + (pointer \<times> 'h state)" where
  "realloc E stack ptr sz st =
     (case (if \<not> real_realloc st then init E st else Inr st) of
        Inl e \<Rightarrow> Inl e
      | Inr st1 \<Rightarrow>
          (let (ret, h) = libc_realloc E ptr sz (heap st1);
               st2 = st1\<lparr>heap := h\<rparr>
           in if \<not> in_handler st2
              then (case handleFree E ptr (st2\<lparr>in_handler := True\<rparr>) of
                      Inl e \<Rightarrow> Inl e
                    | Inr st3 \<Rightarrow>
                        (case handleMalloc E stack ret sz st3 of
                           Inl e \<Rightarrow> Inl e
                         | Inr st4 \<Rightarrow> Inr (ret, st4\<lparr>in_handler := False\<rparr>)))
              else Inr (ret, st2)))"

text \<open>
  The call \<^verbatim>\<open>real_calloc(num, size)\<close>, made when the pointer is not null: it reaches
  \<^verbatim>\<open>dummy_calloc\<close> or the function \<^verbatim>\<open>dlsym\<close> found.
\<close>

definition call_real_calloc ::
  "'h env \<Rightarrow> size_t \<Rightarrow> size_t \<Rightarrow> 'h state \<Rightarrow> fatal + (pointer \<times> 'h state)" where
  "call_real_calloc E num sz st =
     (if real_calloc st = Dummy_calloc then dummy_calloc E num sz st
      else (let (ret, h) = libc_calloc E num sz (heap st) in Inr (ret, st\<lparr>heap := h\<rparr>)))"

definition calloc ::
  "'h env \<Rightarrow> frame list \<Rightarrow> size_t \<Rightarrow> size_t \<Rightarrow> 'h state \<Rightarrow> fatal + (pointer \<times> 'h state)" where
  "calloc E stack num sz st =
     (case (if real_calloc st = Nullptr then init E st else Inr st) of
        Inl e \<Rightarrow> Inl e
      | Inr st1 \<Rightarrow>
          (case call_real_calloc E num sz st1 of
             Inl e \<Rightarrow> Inl e
           | Inr (ret, st2) \<Rightarrow>
               if \<not> in_handler st2
               then (case handleMalloc E stack ret (num * sz) (st2\<lparr>in_handler := True\<rparr>) of
                       Inl e \<Rightarrow> Inl e
                     | Inr st3 \<Rightarrow> Inr (ret, st3\<lparr>in_handler := False\<rparr>))
               else Inr (ret, st2)))"

text \<open>
  \<^verbatim>\<open>posix_memalign\<close>: \<open>memptr\<close> is the value \<^verbatim>\<open>*memptr\<close> holds at the call; the
  result is the returned code and the value \<^verbatim>\<open>*memptr\<close> holds at the return.
\<close>

definition posix_memalign ::
  "'h env \<Rightarrow> frame list \<Rightarrow> pointer \<Rightarrow> size_t \<Rightarrow> size_t \<Rightarrow> 'h state
     \<Rightarrow> fatal + ((int \<times> pointer) \<times> 'h state)" where
  "posix_memalign E stack memptr alignment sz st =
     (case (if \<not> real_posix_memalign st then init E st else Inr st) of
        Inl e \<Rightarrow> Inl e
      | Inr st1 \<Rightarrow>
          (let ((ret, memptr'), h) = libc_posix_memalign E memptr alignment sz (heap st1);
               st2 = st1\<lparr>heap := h\<rparr>
           in if \<not> in_handler st2
              then (case handleMalloc E stack memptr' sz (st2\<lparr>in_handler := True\<rparr>) of
                      Inl e \<Rightarrow> Inl e
                    | Inr st3 \<Rightarrow> Inr ((ret, memptr'), st3\<lparr>in_handler := False\<rparr>))
              else Inr ((ret, memptr'), st2)))"

definition aligned_alloc ::
  "'h env \<Rightarrow> frame list \<Rightarrow> size_t \<Rightarrow> size_t \<Rightarrow> 'h state \<Rightarrow> fatal + (pointer \<times> 'h state)" where
  "aligned_alloc E stack alignment sz st =
     (case (if \<not> real_aligned_alloc st then init E st else Inr st) of
        Inl e \<Rightarrow> Inl e
      | Inr st1 \<Rightarrow>
          (let (ret, h) = libc_aligned_alloc E alignment sz (heap st1);
               st2 = st1\<lparr>heap := h\<rparr>
           in if \<not> in_handler st2
              then (case handleMalloc E stack ret sz (st2\<lparr>in_handler := True\<rparr>) of
                      Inl e \<Rightarrow> Inl e
                    | Inr st3 \<Rightarrow> Inr (ret, st3\<lparr>in_handler := False\<rparr>))
              else Inr (ret, st2)))"

definition valloc ::
  "'h env \<Rightarrow> frame list \<Rightarrow> size_t \<Rightarrow> 'h state \<Rightarrow> fatal + (pointer \<times> 'h state)" where
  "valloc E stack sz st =
     (case (if \<not> real_valloc st then init E st else Inr st) of
        Inl e \<Rightarrow> Inl e
      | Inr st1 \<Rightarrow>
          (let (ret, h) = libc_valloc E sz (heap st1);
               st2 = st1\<lparr>heap := h\<rparr>
           in if \<not> in_handler st2
              then (case handleMalloc E stack ret sz (st2\<lparr>in_handler := True\<rparr>) of
                      Inl e \<Rightarrow> Inl e
                    | Inr st3 \<Rightarrow> Inr (ret, st3\<lparr>in_handler := False\<rparr>))
              else Inr (ret, st2)))"

section \<open>The recorded text, element by element\<close>

text \<open>
  The reference chain as the specification describes it: one element for every frame
  that is walked and not skipped, a definition for a frame met for the first time and a
  reference for a cached one, up to and including the first stop frame. It is computed
  from the cache and the counter at the start of the walk, and is compared below with what
  \<^verbatim>\<open>print_caller\<close> writes.
\<close>

datatype chain_element =
  Definition size_t unw_word_t string unw_word_t
| Reference size_t

fun element_id :: "chain_element \<Rightarrow> size_t" where
  "element_id (Definition i p nm off) = i"
| "element_id (Reference i) = i"

fun render :: "chain_element \<Rightarrow> string" where
  "render (Definition i p nm off) =
     fmt_lu i @ ''='' @ fmt_lx p @ ''@'' @ nm @ ''+0x'' @ fmt_lx off @ '';''"
| "render (Reference i) = fmt_lu i @ '';''"

fun reference_chain ::
  "(unw_word_t \<rightharpoonup> IPCacheEntry) \<Rightarrow> size_t \<Rightarrow> frame list \<Rightarrow> chain_element list" where
  "reference_chain c n [] = []"
| "reference_chain c n (f # fs) =
     (case c (frame_ip f) of
        None \<Rightarrow>
          (if is_operator_new (proc_name f)
           then reference_chain (c(frame_ip f \<mapsto> \<lparr>id' = n, skip = True, stop = False\<rparr>)) (n + 1) fs
           else Definition n (frame_ip f) (c_str (proc_name f)) (proc_offset f) #
                (if is_entry_point (proc_name f) then []
                 else reference_chain (c(frame_ip f \<mapsto> \<lparr>id' = n, skip = False, stop = False\<rparr>))
                        (n + 1) fs))
      | Some e \<Rightarrow>
          (if skip e then [] else [Reference (id' e)]) @
          (if stop e then [] else reference_chain c n fs))"

text \<open>The two records of the handlers, from their format strings.\<close>

definition alloc_record :: "pointer \<Rightarrow> size_t \<Rightarrow> chain_element list \<Rightarrow> string" where
  "alloc_record ptr sz chain =
     ''+'' @ fmt_ld sz @ '':'' @ fmt_p ptr @ '' '' @ concat (map render chain) @ [newline]"

definition free_record :: "pointer \<Rightarrow> string" where
  "free_record ptr = ''-'' @ fmt_p ptr @ [newline]"

definition stream :: "'h state \<Rightarrow> string" where
  "stream st = (case threadData st of None \<Rightarrow> [] | Some td \<Rightarrow> content (out td))"

definition session_cache :: "'h state \<Rightarrow> unw_word_t \<rightharpoonup> IPCacheEntry" where
  "session_cache st = (case threadData st of None \<Rightarrow> Map.empty | Some td \<Rightarrow> ipCache td)"

text \<open>
  The reference chain of a call made in state \<open>st\<close> when the unwinder reaches the
  frames \<open>stack\<close>: the walk starts after the two frames of the tracer.
\<close>

definition walk_chain :: "'h state \<Rightarrow> frame list \<Rightarrow> chain_element list" where
  "walk_chain st stack = reference_chain (session_cache st) (next_cache_id st) (drop 2 stack)"

text \<open>
  How the loop classifies a frame when it reaches it with the cache \<open>c\<close>: by the cached
  entry when there is one, by the name otherwise.
\<close>

definition frame_skipped :: "(unw_word_t \<rightharpoonup> IPCacheEntry) \<Rightarrow> frame \<Rightarrow> bool" where
  "frame_skipped c f =
     (case c (frame_ip f) of
        None \<Rightarrow> is_operator_new (proc_name f)
      | Some e \<Rightarrow> skip e)"

definition frame_stops :: "(unw_word_t \<rightharpoonup> IPCacheEntry) \<Rightarrow> frame \<Rightarrow> bool" where
  "frame_stops c f =
     (case c (frame_ip f) of
        None \<Rightarrow> \<not> is_operator_new (proc_name f) \<and> is_entry_point (proc_name f)
      | Some e \<Rightarrow> stop e)"

text \<open>
  Code does not move: over the frames \<open>fs\<close>, the stop flag of every cached instruction
  pointer is the one its name gives, and two frames at one instruction pointer are both
  named as an entry point or both not.
\<close>

definition names_agree :: "(unw_word_t \<rightharpoonup> IPCacheEntry) \<Rightarrow> frame list \<Rightarrow> bool" where
  "names_agree c fs =
     ((\<forall>f \<in> set fs. \<forall>e. c (frame_ip f) = Some e \<longrightarrow> stop e = is_entry_point (proc_name f)) \<and>
      (\<forall>f \<in> set fs. \<forall>g \<in> set fs. frame_ip f = frame_ip g \<longrightarrow>
          is_entry_point (proc_name f) = is_entry_point (proc_name g)))"

text \<open>
  What holds of every cache the loop builds: identifiers are below the counter, no entry
  is both skipped and a stop, and no two instruction pointers share an identifier.
\<close>

definition cache_ok :: "(unw_word_t \<rightharpoonup> IPCacheEntry) \<Rightarrow> size_t \<Rightarrow> bool" where
  "cache_ok c n =
     ((\<forall>p e. c p = Some e \<longrightarrow> id' e < n \<and> \<not> (skip e \<and> stop e)) \<and>
      (\<forall>p q e e'. c p = Some e \<and> c q = Some e' \<and> id' e = id' e' \<longrightarrow> p = q))"

section \<open>The entry points seen as one\<close>

text \<open>
  A call of one of the seven entry points with its C arguments, what it returns, the
  dispatch to the seven functions above, and the same call made on the true allocator.
\<close>

datatype call =
  Malloc size_t
| Free pointer
| Realloc pointer size_t
| Calloc size_t size_t
| Posix_memalign pointer size_t size_t
| Aligned_alloc size_t size_t
| Valloc size_t

datatype retval = Ptr pointer | Void | Code int pointer

definition with_ptr :: "fatal + (pointer \<times> 'h state) \<Rightarrow> fatal + (retval \<times> 'h state)" where
  "with_ptr r = (case r of Inl e \<Rightarrow> Inl e | Inr (p, st) \<Rightarrow> Inr (Ptr p, st))"

fun intercept :: "'h env \<Rightarrow> frame list \<Rightarrow> call \<Rightarrow> 'h state \<Rightarrow> fatal + (retval \<times> 'h state)" where
  "intercept E stack (Malloc sz) st = with_ptr (malloc E stack sz st)"
| "intercept E stack (Free ptr) st =
     (case free E ptr st of Inl e \<Rightarrow> Inl e | Inr st' \<Rightarrow> Inr (Void, st'))"
| "intercept E stack (Realloc ptr sz) st = with_ptr (realloc E stack ptr sz st)"
| "intercept E stack (Calloc num sz) st = with_ptr (calloc E stack num sz st)"
| "intercept E stack (Posix_memalign memptr alignment sz) st =
     (case posix_memalign E stack memptr alignment sz st of
        Inl e \<Rightarrow> Inl e
      | Inr ((ret, memptr'), st') \<Rightarrow> Inr (Code ret memptr', st'))"
| "intercept E stack (Aligned_alloc alignment sz) st = with_ptr (aligned_alloc E stack alignment sz st)"
| "intercept E stack (Valloc sz) st = with_ptr (valloc E stack sz st)"

definition ptr_result :: "pointer \<times> 'h \<Rightarrow> retval \<times> 'h" where
  "ptr_result r = (Ptr (fst r), snd r)"

fun true_call :: "'h env \<Rightarrow> call \<Rightarrow> 'h \<Rightarrow> retval \<times> 'h" where
  "true_call E (Malloc sz) h = ptr_result (libc_malloc E sz h)"
| "true_call E (Free ptr) h = (Void, libc_free E ptr h)"
| "true_call E (Realloc ptr sz) h = ptr_result (libc_realloc E ptr sz h)"
| "true_call E (Calloc num sz) h = ptr_result (libc_calloc E num sz h)"
| "true_call E (Posix_memalign memptr alignment sz) h =
     (case libc_posix_memalign E memptr alignment sz h of
        ((ret, memptr'), h') \<Rightarrow> (Code ret memptr', h'))"
| "true_call E (Aligned_alloc alignment sz) h = ptr_result (libc_aligned_alloc E alignment sz h)"
| "true_call E (Valloc sz) h = ptr_result (libc_valloc E sz h)"

fun real_pointer :: "call \<Rightarrow> 'h state \<Rightarrow> bool" where
  "real_pointer (Malloc sz) st = real_malloc st"
| "real_pointer (Free ptr) st = real_free st"
| "real_pointer (Realloc ptr sz) st = real_realloc st"
| "real_pointer (Calloc num sz) st = (real_calloc st \<noteq> Nullptr)"
| "real_pointer (Posix_memalign memptr alignment sz) st = real_posix_memalign st"
| "real_pointer (Aligned_alloc alignment sz) st = real_aligned_alloc st"
| "real_pointer (Valloc sz) st = real_valloc st"

fun recorded :: "call \<Rightarrow> retval \<Rightarrow> chain_element list \<Rightarrow> string list" where
  "recorded (Malloc sz) (Ptr r) ch = [alloc_record r sz ch]"
| "recorded (Free ptr) rv ch = [free_record ptr]"
| "recorded (Realloc ptr sz) (Ptr r) ch = [free_record ptr, alloc_record r sz ch]"
| "recorded (Calloc num sz) (Ptr r) ch = [alloc_record r (num * sz) ch]"
| "recorded (Posix_memalign memptr alignment sz) (Code ret memptr') ch = [alloc_record memptr' sz ch]"
| "recorded (Aligned_alloc alignment sz) (Ptr r) ch = [alloc_record r sz ch]"
| "recorded (Valloc sz) (Ptr r) ch = [alloc_record r sz ch]"
| "recorded c rv ch = []"

text \<open>
  The recording step of each entry point: the handlers it calls between engaging and
  releasing the guard.
\<close>

fun record_event :: "'h env \<Rightarrow> frame list \<Rightarrow> call \<Rightarrow> retval \<Rightarrow> 'h state \<Rightarrow> fatal + 'h state" where
  "record_event E stack (Malloc sz) (Ptr r) st = handleMalloc E stack r sz st"
| "record_event E stack (Free ptr) rv st = handleFree E ptr st"
| "record_event E stack (Realloc ptr sz) (Ptr r) st =
     (case handleFree E ptr st of
        Inl e \<Rightarrow> Inl e
      | Inr st1 \<Rightarrow> handleMalloc E stack r sz st1)"
| "record_event E stack (Calloc num sz) (Ptr r) st = handleMalloc E stack r (num * sz) st"
| "record_event E stack (Posix_memalign memptr alignment sz) (Code ret memptr') st =
     handleMalloc E stack memptr' sz st"
| "record_event E stack (Aligned_alloc alignment sz) (Ptr r) st = handleMalloc E stack r sz st"
| "record_event E stack (Valloc sz) (Ptr r) st = handleMalloc E stack r sz st"
| "record_event E stack c rv st = Inr st"

text \<open>
  A call is served by the stand-in when it is a call of \<^verbatim>\<open>calloc\<close> and
  \<^verbatim>\<open>real_calloc\<close> is \<^verbatim>\<open>dummy_calloc\<close>; the stand-in is exhausted by it when the new
  offset reaches \<^verbatim>\<open>MAX_SIZE\<close>. \<open>forward\<close> is the call every entry point makes through its
  \<^verbatim>\<open>real_*\<close> pointer once the pointer is set.
\<close>

fun stand_in :: "call \<Rightarrow> 'h state \<Rightarrow> bool" where
  "stand_in (Calloc num sz) st = (real_calloc st = Dummy_calloc)"
| "stand_in c st = False"

fun exhausts :: "call \<Rightarrow> 'h state \<Rightarrow> bool" where
  "exhausts (Calloc num sz) st =
     (real_calloc st = Dummy_calloc \<and> dummy_calloc_offset st + num * sz \<ge> MAX_SIZE)"
| "exhausts c st = False"

fun forward :: "'h env \<Rightarrow> call \<Rightarrow> 'h state \<Rightarrow> fatal + (retval \<times> 'h state)" where
  "forward E (Calloc num sz) st = with_ptr (call_real_calloc E num sz st)"
| "forward E c st =
     Inr (fst (true_call E c (heap st)), st\<lparr>heap := snd (true_call E c (heap st))\<rparr>)"

text \<open>
  The output file of the thread whose sequence number is \<open>tid\<close>, and the condition under
  which a call comes back to its caller: the pointer is set or \<^verbatim>\<open>init\<close> can find all
  the true functions; the stand-in is not exhausted; and the recording is skipped, or the
  session exists, or its file can be opened.
\<close>

definition outputFileName :: "'h env \<Rightarrow> size_t \<Rightarrow> string" where
  "outputFileName E tid =
     env_value E ''DUMP_MALLOC_TRACE_OUTPUT'' @ to_string_int (getpid E) @ ''.'' @ fmt_lu tid"

definition can_return :: "'h env \<Rightarrow> call \<Rightarrow> 'h state \<Rightarrow> bool" where
  "can_return E c st =
     ((real_pointer c st \<or> (\<not> in_handler st \<and> list_all (dlsym_next E) real_symbols)) \<and>
      \<not> exhausts c st \<and>
      (in_handler st \<or> threadData st \<noteq> None \<or> can_open E (outputFileName E (next_thread_id st))))"

section \<open>A worked example\<close>

text \<open>
  A bump allocator whose state is the next free address, a process that has not called
  the allocator yet, and the call chain \<open>A\<close>, \<open>B\<close>, \<open>main\<close> below the two frames of
  the tracer.
\<close>

definition ex_env :: "size_t env" where
  "ex_env =
     \<lparr>libc_malloc = (\<lambda>sz h. (h, h + sz)),
      libc_free = (\<lambda>p h. h),
      libc_realloc = (\<lambda>p sz h. (h, h + sz)),
      libc_calloc = (\<lambda>num sz h. (h, h + num * sz)),
      libc_posix_memalign = (\<lambda>m al sz h. if al = 3 then ((22, m), h) else ((0, h), h + sz)),
      libc_valloc = (\<lambda>sz h. (h, h + sz)),
      libc_aligned_alloc = (\<lambda>al sz h. (h, h + sz)),
      dlsym_next = (\<lambda>nm. True),
      getenv = (\<lambda>v. if v = ''DUMP_MALLOC_TRACE_OUTPUT'' then Some ''/tmp/trace.'' else None),
      getpid = 4242,
      can_open = (\<lambda>p. True),
      existing = Map.empty,
      dummy_buf = 0x6020a0\<rparr>"

definition ex_stack :: "frame list" where
  "ex_stack =
     [\<lparr>frame_ip = 0x7f2a10, proc_name = ''handleMalloc'', proc_offset = 0x30\<rparr>,
      \<lparr>frame_ip = 0x7f2b44, proc_name = ''malloc'', proc_offset = 0x5c\<rparr>,
      \<lparr>frame_ip = 0x401136, proc_name = ''A'', proc_offset = 0x1a\<rparr>,
      \<lparr>frame_ip = 0x40115c, proc_name = ''B'', proc_offset = 0x12\<rparr>,
      \<lparr>frame_ip = 0x401189, proc_name = ''main'', proc_offset = 0\<rparr>,
      \<lparr>frame_ip = 0x7f3d90, proc_name = ''__libc_start_main'', proc_offset = 0x80\<rparr>]"

definition ex_start :: "size_t state" where
  "ex_start =
     \<lparr>in_handler = False, threadData = None, next_cache_id = 0, next_thread_id = 0,
      real_malloc = False, real_free = False, real_realloc = False, real_calloc = Nullptr,
      real_posix_memalign = False, real_valloc = False, real_aligned_alloc = False,
      dummy_calloc_offset = 0, heap = 0x7f0010\<rparr>"

text \<open>
  A session that has walked no stack yet, and single frames: \<^verbatim>\<open>operator new\<close>, the
  three functions of the call chain, and the caller of \<open>main\<close>.
\<close>

definition ex_session :: ThreadData where
  "ex_session =
     \<lparr>ipCache = Map.empty, thread_id = 0,
      out = \<lparr>path = ''/tmp/trace.4242.0'', content = []\<rparr>\<rparr>"

definition ex_frame_new :: frame where
  "ex_frame_new = \<lparr>frame_ip = 0x7f4c20, proc_name = ''_Znwm'', proc_offset = 0x1c\<rparr>"

definition ex_frame_A :: frame where
  "ex_frame_A = \<lparr>frame_ip = 0x401136, proc_name = ''A'', proc_offset = 0x1a\<rparr>"

definition ex_frame_B :: frame where
  "ex_frame_B = \<lparr>frame_ip = 0x40115c, proc_name = ''B'', proc_offset = 0x12\<rparr>"

definition ex_frame_main :: frame where
  "ex_frame_main = \<lparr>frame_ip = 0x401189, proc_name = ''main'', proc_offset = 0\<rparr>"

definition ex_frame_start :: frame where
  "ex_frame_start = \<lparr>frame_ip = 0x7f3d90, proc_name = ''__libc_start_main'', proc_offset = 0x80\<rparr>"

text \<open>The process in the middle of a recording, with that session.\<close>

definition ex_traced :: "size_t state" where
  "ex_traced =
     \<lparr>in_handler = True, threadData = Some ex_session, next_cache_id = 0, next_thread_id = 1,
      real_malloc = True, real_free = True, real_realloc = True, real_calloc = Found_calloc,
      real_posix_memalign = True, real_valloc = True, real_aligned_alloc = True,
      dummy_calloc_offset = 32, heap = 0x7f0050\<rparr>"

text \<open>
  The same collaborators when a trace file of an earlier run lies under the name of the
  first thread's file.
\<close>

definition ex_env_stale :: "size_t env" where
  "ex_env_stale =
     ex_env\<lparr>existing := [''/tmp/trace.4242.0'' \<mapsto> ''+8:0x7e0000 '' @ [newline]]\<rparr>"

text \<open>The same process seen by a thread that is inside the tracer.\<close>

definition ex_busy :: "size_t state" where
  "ex_busy =
     \<lparr>in_handler = True, threadData = None, next_cache_id = 0, next_thread_id = 0,
      real_malloc = True, real_free = True, real_realloc = True, real_calloc = Found_calloc,
      real_posix_memalign = True, real_valloc = True, real_aligned_alloc = True,
      dummy_calloc_offset = 32, heap = 0x7f0010\<rparr>"

text \<open>
  The same process while \<^verbatim>\<open>init\<close> runs \<^verbatim>\<open>dlsym\<close> for the first symbol: the guard is
  engaged, \<^verbatim>\<open>real_calloc\<close> is the stand-in and nothing else is resolved yet.
\<close>

definition ex_init :: "size_t state" where
  "ex_init =
     \<lparr>in_handler = True, threadData = None, next_cache_id = 0, next_thread_id = 0,
      real_malloc = False, real_free = False, real_realloc = False, real_calloc = Dummy_calloc,
      real_posix_memalign = False, real_valloc = False, real_aligned_alloc = False,
      dummy_calloc_offset = 0, heap = 0x7f0010\<rparr>"

section \<open>The allocation record as the specification words it\<close>

text \<open>
  \<^verbatim>\<open>+<decimal size>:<pointer in hex>\<close>, then the reference chain, then a newline,
  with nothing in between.
\<close>

definition claimed_alloc_record :: "pointer \<Rightarrow> size_t \<Rightarrow> chain_element list \<Rightarrow> string" where
  "claimed_alloc_record ptr sz chain =
     ''+'' @ fmt_ld sz @ '':'' @ fmt_p ptr @ concat (map render chain) @ [newline]"

section \<open>Classification of names\<close>

lemma c_str_main: "c_str ''main'' = ''main''" "c_str ''_GLOBAL__sub_I_main'' = ''_GLOBAL__sub_I_main''"
  by (simp_all add: c_str_def NUL_def)

lemma is_entry_point_iff:
  "is_entry_point b \<longleftrightarrow> c_str b = ''main'' \<or> c_str b = ''_GLOBAL__sub_I_main''"
  by (simp add: is_entry_point_def strcmp_eq_def c_str_main)

lemma c_str_Nil [simp]: "c_str [] = []" by (simp add: c_str_def)
lemma c_str_Cons: "c_str (x # xs) = (if x = NUL then [] else x # c_str xs)"
  by (simp add: c_str_def)

lemma buf_at_0: "buf_at (x # xs) 0 = x" by (simp add: buf_at_def)
lemma buf_at_Suc: "buf_at (x # xs) (Suc i) = buf_at xs i" by (simp add: buf_at_def)
lemma buf_at_Nil: "buf_at [] i = NUL" by (simp add: buf_at_def)

lemma list6_cases:
  "b = [] \<or> (\<exists>x1. b = [x1]) \<or> (\<exists>x1 x2. b = [x1, x2]) \<or> (\<exists>x1 x2 x3. b = [x1, x2, x3])
      \<or> (\<exists>x1 x2 x3 x4. b = [x1, x2, x3, x4]) \<or> (\<exists>x1 x2 x3 x4 x5. b = [x1, x2, x3, x4, x5])
      \<or> (\<exists>x1 x2 x3 x4 x5 x6 r. b = x1 # x2 # x3 # x4 # x5 # x6 # r)"
  by (simp add: neq_Nil_conv [symmetric] flip: ex_simps) (metis list.exhaust)

lemma is_operator_new_iff:
  "is_operator_new b \<longleftrightarrow> c_str b = ''_Znwm'' \<or> c_str b = ''_Znam''"
proof -
  have n: "NUL \<noteq> CHR ''_''" "NUL \<noteq> CHR ''Z''" "NUL \<noteq> CHR ''n''" "NUL \<noteq> CHR ''w''"
    "NUL \<noteq> CHR ''a''" "NUL \<noteq> CHR ''m''"
    by (simp_all add: NUL_def)
  have s: "(1::nat) = Suc 0" "(2::nat) = Suc (Suc 0)" "(3::nat) = Suc (Suc (Suc 0))"
    "(4::nat) = Suc (Suc (Suc (Suc 0)))" "(5::nat) = Suc (Suc (Suc (Suc (Suc 0))))"
    by simp_all
  show ?thesis
    unfolding is_operator_new_def s
    using list6_cases [of b]
    by (elim disjE exE)
       (auto simp: buf_at_Nil buf_at_0 buf_at_Suc c_str_Cons n split: if_splits)
qed

section \<open>The loop\<close>

lemma fprintf_simps [simp]:
  "ipCache (fprintf s td) = ipCache td"
  "thread_id (fprintf s td) = thread_id td"
  "path (out (fprintf s td)) = path (out td)"
  "content (out (fprintf s td)) = content (out td) @ s"
  by (simp_all add: fprintf_def)

lemma loop_content:
  "content (out (fst (print_caller_loop fs (td, n)))) =
     content (out td) @ concat (map render (reference_chain (ipCache td) n fs))"
  by (induction fs arbitrary: td n)
     (auto simp: Let_def split: option.split)

lemma loop_stable:
  "ipCache td p = Some e \<Longrightarrow> ipCache (fst (print_caller_loop fs (td, n))) p = Some e"
  by (induction fs arbitrary: td n)
     (auto simp: Let_def split: option.split)

lemma loop_miss:
  assumes "ipCache td (frame_ip f) = None"
  shows "print_caller_loop [f] (td, n) =
     ((if is_operator_new (proc_name f)
       then td\<lparr>ipCache := (ipCache td)(frame_ip f \<mapsto> \<lparr>id' = n, skip = True, stop = False\<rparr>)\<rparr>
       else fprintf (fmt_lu n @ ''='' @ fmt_lx (frame_ip f) @ ''@'' @ c_str (proc_name f)
                     @ ''+0x'' @ fmt_lx (proc_offset f) @ '';'')
              (td\<lparr>ipCache := (ipCache td)(frame_ip f \<mapsto>
                    \<lparr>id' = n, skip = False, stop = is_entry_point (proc_name f)\<rparr>)\<rparr>)),
      n + 1)"
  using assms by (simp add: Let_def)

lemma loop_hit:
  assumes "ipCache td (frame_ip f) = Some e"
  shows "print_caller_loop [f] (td, n) =
     ((if skip e then td else fprintf (fmt_lu (id' e) @ '';'') td), n)"
  using assms by (simp add: Let_def)

lemma loop_Cons:
  "print_caller_loop (f # fs) (td, n) =
     (if frame_stops (ipCache td) f then print_caller_loop [f] (td, n)
      else print_caller_loop fs (print_caller_loop [f] (td, n)))"
  by (cases "ipCache td (frame_ip f)") (simp_all add: frame_stops_def Let_def)

lemma cache_ok_fresh:
  assumes "cache_ok c n" and "c p = Some e"
  shows "id' e \<noteq> n"
  using assms by (auto simp: cache_ok_def)

lemma loop_first_entry:
  assumes "ipCache td (frame_ip f) = None"
  shows "ipCache (fst (print_caller_loop (f # fs) (td, n))) (frame_ip f) =
     Some \<lparr>id' = n, skip = is_operator_new (proc_name f),
           stop = (\<not> is_operator_new (proc_name f) \<and> is_entry_point (proc_name f))\<rparr>"
proof -
  let ?e = "\<lparr>id' = n, skip = is_operator_new (proc_name f),
           stop = (\<not> is_operator_new (proc_name f) \<and> is_entry_point (proc_name f))\<rparr>"
  obtain td1 n1 where s: "print_caller_loop [f] (td, n) = (td1, n1)" by fastforce
  have c: "ipCache td1 (frame_ip f) = Some ?e"
  proof (cases "is_operator_new (proc_name f)")
    case True
    then have "td1 = td\<lparr>ipCache := (ipCache td)(frame_ip f \<mapsto>
        \<lparr>id' = n, skip = True, stop = False\<rparr>)\<rparr>"
      using s by (simp only: loop_miss [OF assms] if_True prod.inject)
    then show ?thesis using True by simp
  next
    case False
    then have "td1 = fprintf (fmt_lu n @ ''='' @ fmt_lx (frame_ip f) @ ''@'' @ c_str (proc_name f)
                     @ ''+0x'' @ fmt_lx (proc_offset f) @ '';'')
              (td\<lparr>ipCache := (ipCache td)(frame_ip f \<mapsto>
                    \<lparr>id' = n, skip = False, stop = is_entry_point (proc_name f)\<rparr>)\<rparr>)"
      using s by (simp only: loop_miss [OF assms] if_False prod.inject)
    then show ?thesis using False by simp
  qed
  show ?thesis
  proof (cases "frame_stops (ipCache td) f")
    case True
    then show ?thesis using c s by (simp only: loop_Cons [of f fs td n] if_True fst_conv)
  next
    case False
    then show ?thesis
      using loop_stable [OF c, of fs n1] s by (simp only: loop_Cons [of f fs td n] if_False)
  qed
qed

lemma word64_Suc:
  fixes n :: size_t
  assumes "unat n + 1 < 2 ^ 64"
  shows "unat (n + 1) = unat n + 1" "n < n + 1"
proof -
  show u: "unat (n + 1) = unat n + 1"
    using assms unat_add_lem [of n 1] by simp
  show "n < n + 1" by (simp add: word_less_nat_alt u)
qed

lemma cache_ok_insert:
  assumes "cache_ok c n" and "c p = None" and "unat n + 1 < 2 ^ 64" and "\<not> (sk \<and> st)"
  shows "cache_ok (c(p \<mapsto> \<lparr>id' = n, skip = sk, stop = st\<rparr>)) (n + 1)"
proof -
  have lt: "n < n + 1" using word64_Suc(2) [OF assms(3)] .
  have old: "id' e < n" "\<not> (skip e \<and> stop e)" if "c q = Some e" for q e
    using assms(1) that by (auto simp: cache_ok_def)
  have inj: "q = q'" if "c q = Some e" "c q' = Some e'" "id' e = id' e'" for q q' e e'
    using assms(1) that unfolding cache_ok_def by blast
  show ?thesis
    unfolding cache_ok_def
  proof (intro conjI allI impI)
    fix q e
    assume a: "(c(p \<mapsto> \<lparr>id' = n, skip = sk, stop = st\<rparr>)) q = Some e"
    show "id' e < n + 1"
    proof (cases "q = p")
      case True then show ?thesis using a lt by auto
    next
      case False
      then have "id' e < n" using a old(1) [of q e] by simp
      then show ?thesis using lt by simp
    qed
    show "\<not> (skip e \<and> stop e)"
    proof (cases "q = p")
      case True then show ?thesis using a assms(4) by auto
    next
      case False then show ?thesis using a old(2) [of q e] by simp
    qed
  next
    fix q q' e e'
    assume a: "(c(p \<mapsto> \<lparr>id' = n, skip = sk, stop = st\<rparr>)) q = Some e \<and>
      (c(p \<mapsto> \<lparr>id' = n, skip = sk, stop = st\<rparr>)) q' = Some e' \<and> id' e = id' e'"
    show "q = q'"
    proof (cases "q = p")
      case qp: True
      show ?thesis
      proof (cases "q' = p")
        case True then show ?thesis using qp by simp
      next
        case False
        then have "id' e' < n" using a old(1) [of q' e'] by simp
        moreover have "id' e = n" using a qp by auto
        ultimately show ?thesis using a by simp
      qed
    next
      case qp: False
      then have l: "id' e < n" and cq: "c q = Some e" using a old(1) [of q e] by simp_all
      show ?thesis
      proof (cases "q' = p")
        case True
        then have "id' e' = n" using a by auto
        then show ?thesis using a l by simp
      next
        case False
        then have "c q' = Some e'" using a by simp
        then show ?thesis using inj [OF cq] a by blast
      qed
    qed
  qed
qed

lemma step_cache:
  "ipCache (fst (print_caller_loop [f] (td, n))) =
     (case ipCache td (frame_ip f) of
        None \<Rightarrow> (ipCache td)(frame_ip f \<mapsto>
                  \<lparr>id' = n, skip = is_operator_new (proc_name f),
                   stop = (\<not> is_operator_new (proc_name f) \<and> is_entry_point (proc_name f))\<rparr>)
      | Some e \<Rightarrow> ipCache td)"
  by (cases "ipCache td (frame_ip f)") (simp_all add: Let_def)

lemma step_counter:
  "snd (print_caller_loop [f] (td, n)) =
     (case ipCache td (frame_ip f) of None \<Rightarrow> n + 1 | Some e \<Rightarrow> n)"
  by (cases "ipCache td (frame_ip f)") (simp_all add: Let_def)

lemma step_cache_ok:
  assumes "cache_ok (ipCache td) n" and "unat n + 1 < 2 ^ 64"
  shows "cache_ok (ipCache (fst (print_caller_loop [f] (td, n))))
           (snd (print_caller_loop [f] (td, n)))"
proof (cases "ipCache td (frame_ip f)")
  case None
  show ?thesis
    unfolding step_cache step_counter None option.case
    by (rule cache_ok_insert [OF assms(1) None assms(2)]) simp
next
  case (Some e)
  show ?thesis
    unfolding step_cache step_counter Some option.case by (rule assms(1))
qed

lemma step_counter_le:
  assumes "unat n + 1 < 2 ^ 64"
  shows "unat (snd (print_caller_loop [f] (td, n))) \<le> unat n + 1"
proof (cases "ipCache td (frame_ip f)")
  case None
  show ?thesis
    unfolding step_counter None option.case using word64_Suc(1) [OF assms] by simp
next
  case (Some e)
  show ?thesis unfolding step_counter Some option.case by simp
qed

lemma loop_cache_ok:
  assumes "cache_ok (ipCache td) n" and "unat n + length fs < 2 ^ 64"
  shows "cache_ok (ipCache (fst (print_caller_loop fs (td, n)))) (snd (print_caller_loop fs (td, n)))"
  using assms
proof (induction fs arbitrary: td n)
  case Nil
  then show ?case by simp
next
  case (Cons f fs)
  have n1: "unat n + 1 < 2 ^ 64" using Cons.prems(2) by simp
  obtain td1 m where s: "print_caller_loop [f] (td, n) = (td1, m)" by fastforce
  have ok1: "cache_ok (ipCache td1) m"
    using step_cache_ok [OF Cons.prems(1) n1, of f] s by simp
  have "unat m \<le> unat n + 1" using step_counter_le [OF n1, of f td] s by simp
  then have u: "unat m + length fs < 2 ^ 64" using Cons.prems(2) by simp
  show ?case
  proof (cases "frame_stops (ipCache td) f")
    case True
    then show ?thesis using ok1 s by (simp only: loop_Cons [of f fs td n] if_True fst_conv snd_conv)
  next
    case False
    then show ?thesis
      using Cons.IH [OF ok1 u] s by (simp only: loop_Cons [of f fs td n] if_False)
  qed
qed

lemma chain_Cons:
  "reference_chain (ipCache td) n (f # fs) =
     reference_chain (ipCache td) n [f] @
     (if frame_stops (ipCache td) f then []
      else reference_chain (ipCache (fst (print_caller_loop [f] (td, n))))
             (snd (print_caller_loop [f] (td, n))) fs)"
  by (cases "ipCache td (frame_ip f)") (simp_all add: frame_stops_def Let_def)

lemma step_chain:
  assumes "el \<in> set (reference_chain (ipCache td) n [f])"
  shows "\<exists>e. ipCache (fst (print_caller_loop [f] (td, n))) (frame_ip f) = Some e
           \<and> id' e = element_id el \<and> \<not> skip e"
proof (cases "ipCache td (frame_ip f)")
  case None
  then show ?thesis
    using assms unfolding step_cache by (auto split: if_splits)
next
  case (Some e)
  then show ?thesis
    using assms unfolding step_cache by (auto split: if_splits)
qed

lemma chain_ids_cached:
  assumes "el \<in> set (reference_chain (ipCache td) n fs)"
  shows "\<exists>p e. ipCache (fst (print_caller_loop fs (td, n))) p = Some e
           \<and> id' e = element_id el \<and> \<not> skip e"
  using assms
proof (induction fs arbitrary: td n)
  case Nil
  then show ?case by simp
next
  case (Cons f fs)
  obtain td1 m where s: "print_caller_loop [f] (td, n) = (td1, m)" by fastforce
  have l: "print_caller_loop (f # fs) (td, n) =
      (if frame_stops (ipCache td) f then (td1, m) else print_caller_loop fs (td1, m))"
    by (simp only: loop_Cons [of f fs td n] s)
  consider "el \<in> set (reference_chain (ipCache td) n [f])"
    | "\<not> frame_stops (ipCache td) f" "el \<in> set (reference_chain (ipCache td1) m fs)"
    using Cons.prems s by (simp only: chain_Cons [of td n f fs] fst_conv snd_conv)
      (auto split: if_splits)
  then show ?case
  proof cases
    case 1
    then obtain e where e: "ipCache td1 (frame_ip f) = Some e" "id' e = element_id el" "\<not> skip e"
      using step_chain [of el td n f] s by auto
    have "ipCache (fst (print_caller_loop (f # fs) (td, n))) (frame_ip f) = Some e"
      using loop_stable [OF e(1), of fs m] e(1) unfolding l by simp
    then show ?thesis using e(2,3) by blast
  next
    case 2
    then show ?thesis using Cons.IH [of td1 m] unfolding l by simp
  qed
qed

lemma chain_excludes_skipped:
  assumes "cache_ok (ipCache td) n" and "unat n + length fs < 2 ^ 64"
    and "el \<in> set (reference_chain (ipCache td) n fs)"
    and "ipCache (fst (print_caller_loop fs (td, n))) p = Some e" and "skip e"
  shows "element_id el \<noteq> id' e"
proof
  assume eq: "element_id el = id' e"
  obtain q e' where q: "ipCache (fst (print_caller_loop fs (td, n))) q = Some e'"
    "id' e' = element_id el" "\<not> skip e'"
    using chain_ids_cached [OF assms(3)] by blast
  have "cache_ok (ipCache (fst (print_caller_loop fs (td, n)))) (snd (print_caller_loop fs (td, n)))"
    using loop_cache_ok [OF assms(1,2)] .
  then have "q = p"
    using q(1,2) assms(4) eq unfolding cache_ok_def by metis
  then show False using q assms(4,5) by simp
qed

lemma entry_not_new:
  assumes "is_entry_point nm"
  shows "\<not> is_operator_new nm"
  using assms by (auto simp: is_entry_point_iff is_operator_new_iff)

lemma agree_stops:
  assumes "names_agree (ipCache td) (x # fs)"
  shows "frame_stops (ipCache td) x = is_entry_point (proc_name x)"
proof (cases "ipCache td (frame_ip x)")
  case None
  then show ?thesis using entry_not_new [of "proc_name x"] by (auto simp: frame_stops_def)
next
  case (Some e)
  then show ?thesis using assms by (simp add: frame_stops_def names_agree_def)
qed

lemma agree_sub:
  assumes "names_agree c fs" and "set gs \<subseteq> set fs"
  shows "names_agree c gs"
  using assms unfolding names_agree_def by blast

lemma agree_step:
  assumes "names_agree (ipCache td) (x # fs)"
  shows "names_agree (ipCache (fst (print_caller_loop [x] (td, n)))) fs"
proof (cases "ipCache td (frame_ip x)")
  case (Some e)
  have "names_agree (ipCache td) fs" using assms by (rule agree_sub) auto
  then show ?thesis unfolding step_cache Some option.case .
next
  case None
  define e0 where "e0 = \<lparr>id' = n, skip = is_operator_new (proc_name x),
             stop = (\<not> is_operator_new (proc_name x) \<and> is_entry_point (proc_name x))\<rparr>"
  have st: "stop e0 = is_entry_point (proc_name x)"
    using entry_not_new [of "proc_name x"] unfolding e0_def by (cases "is_entry_point (proc_name x)") simp_all
  have A: "\<forall>f \<in> set (x # fs). \<forall>e. ipCache td (frame_ip f) = Some e \<longrightarrow>
      stop e = is_entry_point (proc_name f)"
    and B: "\<forall>f \<in> set (x # fs). \<forall>g \<in> set (x # fs). frame_ip f = frame_ip g \<longrightarrow>
          is_entry_point (proc_name f) = is_entry_point (proc_name g)"
    using assms unfolding names_agree_def by blast+
  have a: "stop e = is_entry_point (proc_name f)"
    if "f \<in> set fs" "ipCache td (frame_ip f) = Some e" for f e
    using A that by (meson list.set_intros(2))
  have b: "\<forall>f \<in> set fs. \<forall>g \<in> set fs. frame_ip f = frame_ip g \<longrightarrow>
          is_entry_point (proc_name f) = is_entry_point (proc_name g)"
    using B by (meson list.set_intros(2))
  have c: "is_entry_point (proc_name x) = is_entry_point (proc_name g)"
    if "g \<in> set fs" "frame_ip x = frame_ip g" for g
    using B that by (meson list.set_intros)
  have first: "\<forall>f \<in> set fs. \<forall>e. ((ipCache td)(frame_ip x \<mapsto> e0)) (frame_ip f) = Some e \<longrightarrow>
      stop e = is_entry_point (proc_name f)"
  proof (intro ballI allI impI)
    fix f e
    assume f: "f \<in> set fs" and e: "((ipCache td)(frame_ip x \<mapsto> e0)) (frame_ip f) = Some e"
    show "stop e = is_entry_point (proc_name f)"
    proof (cases "frame_ip x = frame_ip f")
      case True
      have "((ipCache td)(frame_ip x \<mapsto> e0)) (frame_ip f) = Some e0"
        unfolding True [symmetric] by (rule fun_upd_same)
      then have "e = e0" using e by (simp only: option.inject)
      then show ?thesis using st c [OF f True] by (simp only:)
    next
      case False
      then have "((ipCache td)(frame_ip x \<mapsto> e0)) (frame_ip f) = ipCache td (frame_ip f)"
        by (simp only: fun_upd_other not_sym)
      then have "ipCache td (frame_ip f) = Some e" using e by (simp only:)
      then show ?thesis by (rule a [OF f])
    qed
  qed
  show ?thesis
    unfolding step_cache None option.case names_agree_def e0_def [symmetric]
    by (rule conjI [OF first b])
qed

lemma loop_stops_at_entry:
  assumes "names_agree (ipCache td) (pre @ f # rest)" and "is_entry_point (proc_name f)"
  shows "print_caller_loop (pre @ f # rest) (td, n) = print_caller_loop (pre @ [f]) (td, n)"
  using assms(1)
proof (induction pre arbitrary: td n)
  case Nil
  then have "frame_stops (ipCache td) f" using agree_stops [of td f rest] assms(2) by simp
  then show ?case by (simp only: append_Nil loop_Cons [of f rest td n] if_True)
next
  case (Cons x pre)
  obtain td1 m where s: "print_caller_loop [x] (td, n) = (td1, m)" by fastforce
  have ag: "names_agree (ipCache td1) (pre @ f # rest)"
    using agree_step [of td x "pre @ f # rest" n] Cons.prems s by simp
  have "print_caller_loop (x # (pre @ f # rest)) (td, n) =
      print_caller_loop (x # (pre @ [f])) (td, n)"
    using Cons.IH [OF ag, of m]
    by (simp only: loop_Cons [of x "pre @ f # rest" td n] loop_Cons [of x "pre @ [f]" td n] s)
  then show ?case by simp
qed

lemma loop_append:
  assumes "names_agree (ipCache td) (pre @ rest)" and "\<forall>g \<in> set pre. \<not> is_entry_point (proc_name g)"
  shows "print_caller_loop (pre @ rest) (td, n) = print_caller_loop rest (print_caller_loop pre (td, n))
       \<and> names_agree (ipCache (fst (print_caller_loop pre (td, n)))) rest
       \<and> frame_ip ` set pre \<subseteq> dom (ipCache (fst (print_caller_loop pre (td, n))))"
  using assms
proof (induction pre arbitrary: td n)
  case Nil
  then show ?case by simp
next
  case (Cons x pre)
  obtain td1 m where s: "print_caller_loop [x] (td, n) = (td1, m)" by fastforce
  have ag: "names_agree (ipCache td1) (pre @ rest)"
    using agree_step [of td x "pre @ rest" n] Cons.prems(1) s by simp
  have ns: "\<not> frame_stops (ipCache td) x"
    using agree_stops [of td x "pre @ rest"] Cons.prems by simp
  have ne: "\<forall>g \<in> set pre. \<not> is_entry_point (proc_name g)" using Cons.prems(2) by simp
  note ih = Cons.IH [OF ag ne, of m]
  have l1: "print_caller_loop (x # (pre @ rest)) (td, n) = print_caller_loop (pre @ rest) (td1, m)"
    using ns by (simp only: loop_Cons [of x "pre @ rest" td n] if_False s)
  have l2: "print_caller_loop (x # pre) (td, n) = print_caller_loop pre (td1, m)"
    using ns by (simp only: loop_Cons [of x pre td n] if_False s)
  have "frame_ip x \<in> dom (ipCache td1)"
    using step_cache [of x td n] s by (cases "ipCache td (frame_ip x)") auto
  then obtain e where "ipCache td1 (frame_ip x) = Some e" by blast
  then have "ipCache (fst (print_caller_loop pre (td1, m))) (frame_ip x) = Some e"
    by (rule loop_stable)
  then have x: "frame_ip x \<in> dom (ipCache (fst (print_caller_loop pre (td1, m))))" by blast
  show ?case
    using ih x unfolding append_Cons l1 l2 by simp
qed

lemma loop_reaches_entry:
  assumes "names_agree (ipCache td) (pre @ f # rest)"
    and "\<forall>g \<in> set pre. \<not> is_entry_point (proc_name g)" and "is_entry_point (proc_name f)"
  shows "\<exists>e. ipCache (fst (print_caller_loop (pre @ f # rest) (td, n))) (frame_ip f) = Some e \<and> stop e"
proof -
  obtain td1 m where s: "print_caller_loop pre (td, n) = (td1, m)" by fastforce
  have a: "print_caller_loop (pre @ f # rest) (td, n) = print_caller_loop (f # rest) (td1, m)"
    and ag: "names_agree (ipCache td1) (f # rest)"
    using loop_append [OF assms(1,2), of n] s by simp_all
  have st: "frame_stops (ipCache td1) f" using agree_stops [OF ag] assms(3) by simp
  have l: "print_caller_loop (f # rest) (td1, m) = print_caller_loop [f] (td1, m)"
    using st by (simp only: loop_Cons [of f rest td1 m] if_True)
  have "\<exists>e. ipCache (fst (print_caller_loop [f] (td1, m))) (frame_ip f) = Some e \<and> stop e"
    using st unfolding step_cache
    by (cases "ipCache td1 (frame_ip f)") (auto simp: frame_stops_def)
  then show ?thesis unfolding a l .
qed

lemma print_caller_short:
  assumes "length frames < 2"
  shows "print_caller frames s = s"
proof (cases frames)
  case Nil
  then show ?thesis by (simp add: print_caller_def)
next
  case (Cons a as)
  then have "as = []" using assms by simp
  then show ?thesis using Cons by (simp add: print_caller_def)
qed

lemma loop_entry_miss:
  assumes "ipCache td (frame_ip f) = None" and "is_entry_point (proc_name f)"
  shows "print_caller_loop (f # rest) (td, n) =
     (fprintf (fmt_lu n @ ''='' @ fmt_lx (frame_ip f) @ ''@'' @ c_str (proc_name f)
               @ ''+0x'' @ fmt_lx (proc_offset f) @ '';'')
        (td\<lparr>ipCache := (ipCache td)(frame_ip f \<mapsto> \<lparr>id' = n, skip = False, stop = True\<rparr>)\<rparr>),
      n + 1)"
  using assms entry_not_new [OF assms(2)] by (simp add: Let_def)

lemma loop_entry_hit:
  assumes "ipCache td (frame_ip f) = Some e" and "stop e"
  shows "print_caller_loop (f # rest) (td, n) =
     ((if skip e then td else fprintf (fmt_lu (id' e) @ '';'') td), n)"
  using assms by (simp add: Let_def)

section \<open>Handlers\<close>

lemma print_caller_drop: "print_caller frames s = print_caller_loop (drop 2 frames) s"
proof (cases frames)
  case Nil
  then show ?thesis by (cases s) (simp add: print_caller_def)
next
  case (Cons a as)
  then show ?thesis by (cases as; cases s) (simp_all add: print_caller_def)
qed

lemma init_Inr:
  assumes "init E st = Inr st1"
  shows "heap st1 = heap st" "threadData st1 = threadData st"
    "next_cache_id st1 = next_cache_id st" "next_thread_id st1 = next_thread_id st"
    "in_handler st1 = in_handler st" "\<not> in_handler st"
    "real_malloc st1" "real_free st1" "real_realloc st1" "real_calloc st1 = Found_calloc"
    "real_posix_memalign st1" "real_valloc st1" "real_aligned_alloc st1"
    "dummy_calloc_offset st1 = dummy_calloc_offset st"
  using assms by (auto simp: init_def Let_def split: if_splits option.splits)

lemma ctor_Inr:
  assumes "ThreadData_ctor E st = Inr (td, st1)"
  shows "threadData st1 = Some td" "ipCache td = Map.empty" "content (out td) = []"
    "heap st1 = heap st" "in_handler st1 = in_handler st"
    "next_cache_id st1 = next_cache_id st" "thread_id td = next_thread_id st"
    "next_thread_id st1 = next_thread_id st + 1"
  using assms
  by (auto simp: ThreadData_ctor_def Let_def fopen_def split: option.splits if_splits)

lemma use_Inr:
  assumes "threadData_use E st = Inr (td, st1)"
  shows "threadData st1 = Some td" "ipCache td = session_cache st" "content (out td) = stream st"
    "heap st1 = heap st" "in_handler st1 = in_handler st"
    "next_cache_id st1 = next_cache_id st"
proof -
  have "threadData st1 = Some td \<and> ipCache td = session_cache st \<and> content (out td) = stream st
    \<and> heap st1 = heap st \<and> in_handler st1 = in_handler st \<and> next_cache_id st1 = next_cache_id st"
  proof (cases "threadData st")
    case None
    then have c: "ThreadData_ctor E st = Inr (td, st1)"
      using assms by (simp add: threadData_use_def)
    show ?thesis
      using ctor_Inr [OF c] None by (simp add: session_cache_def stream_def)
  next
    case (Some td0)
    then show ?thesis
      using assms by (auto simp: threadData_use_def session_cache_def stream_def)
  qed
  then show "threadData st1 = Some td" "ipCache td = session_cache st" "content (out td) = stream st"
    "heap st1 = heap st" "in_handler st1 = in_handler st"
    "next_cache_id st1 = next_cache_id st"
    by simp_all
qed

lemma handleMalloc_Inr:
  assumes "handleMalloc E stack ptr sz st = Inr st'"
  shows "stream st' = stream st @ alloc_record ptr sz
           (reference_chain (session_cache st) (next_cache_id st) (drop 2 stack))"
    "heap st' = heap st" "in_handler st' = in_handler st"
proof -
  from assms obtain td st1 where u: "threadData_use E st = Inr (td, st1)"
    by (auto simp: handleMalloc_def split: sum.splits)
  note f = use_Inr [OF u]
  obtain td2 n where p: "print_caller_loop (drop 2 stack)
      (fprintf (''+'' @ fmt_ld sz @ '':'' @ fmt_p ptr @ '' '') td, next_cache_id st1) = (td2, n)"
    by fastforce
  have st': "st' = st1\<lparr>threadData := Some (fprintf [newline] td2), next_cache_id := n\<rparr>"
    using assms u p by (simp add: handleMalloc_def print_caller_drop)
  have "content (out td2) = content (out td) @ (''+'' @ fmt_ld sz @ '':'' @ fmt_p ptr @ '' '')
      @ concat (map render (reference_chain (ipCache td) (next_cache_id st1) (drop 2 stack)))"
    using loop_content [of "drop 2 stack" "fprintf (''+'' @ fmt_ld sz @ '':'' @ fmt_p ptr @ '' '') td"
        "next_cache_id st1"] p by simp
  then show "stream st' = stream st @ alloc_record ptr sz
           (reference_chain (session_cache st) (next_cache_id st) (drop 2 stack))"
    using f by (simp add: st' stream_def alloc_record_def)
  show "heap st' = heap st" "in_handler st' = in_handler st"
    using f by (simp_all add: st')
qed

lemma handleFree_Inr:
  assumes "handleFree E ptr st = Inr st'"
  shows "stream st' = stream st @ free_record ptr"
    "heap st' = heap st" "in_handler st' = in_handler st"
    "session_cache st' = session_cache st" "next_cache_id st' = next_cache_id st"
proof -
  from assms obtain td st1 where u: "threadData_use E st = Inr (td, st1)"
    by (auto simp: handleFree_def split: sum.splits)
  note f = use_Inr [OF u]
  have st': "st' = st1\<lparr>threadData := Some (fprintf (''-'' @ fmt_p ptr @ [newline]) td)\<rparr>"
    using assms u by (simp add: handleFree_def)
  show "stream st' = stream st @ free_record ptr"
    "heap st' = heap st" "in_handler st' = in_handler st"
    "session_cache st' = session_cache st" "next_cache_id st' = next_cache_id st"
    using f by (simp_all add: st' stream_def free_record_def session_cache_def)
qed

section \<open>Entry points\<close>

text \<open>The tail every allocating entry point shares.\<close>

lemma traced_tail:
  assumes "(if \<not> in_handler st2
            then (case handleMalloc E stack p sz (st2\<lparr>in_handler := True\<rparr>) of
                    Inl e \<Rightarrow> Inl e
                  | Inr st3 \<Rightarrow> Inr (r, st3\<lparr>in_handler := False\<rparr>))
            else Inr (r, st2)) = Inr (r', st')"
  shows "r' = r" "heap st' = heap st2" "in_handler st' = in_handler st2"
    "stream st' = stream st2 @ (if in_handler st2 then [] else alloc_record p sz
        (reference_chain (session_cache st2) (next_cache_id st2) (drop 2 stack)))"
    "in_handler st2 \<Longrightarrow> st' = st2"
proof -
  have "r' = r \<and> heap st' = heap st2 \<and> in_handler st' = in_handler st2 \<and>
    stream st' = stream st2 @ (if in_handler st2 then [] else alloc_record p sz
        (reference_chain (session_cache st2) (next_cache_id st2) (drop 2 stack))) \<and>
    (in_handler st2 \<longrightarrow> st' = st2)"
  proof (cases "in_handler st2")
    case True
    then show ?thesis using assms by simp
  next
    case False
    then obtain st3 where h: "handleMalloc E stack p sz (st2\<lparr>in_handler := True\<rparr>) = Inr st3"
      and e: "r' = r" "st' = st3\<lparr>in_handler := False\<rparr>"
      using assms by (auto split: sum.splits)
    show ?thesis
      using handleMalloc_Inr [OF h] False e
      by (simp add: stream_def session_cache_def)
  qed
  then show "r' = r" "heap st' = heap st2" "in_handler st' = in_handler st2"
    "stream st' = stream st2 @ (if in_handler st2 then [] else alloc_record p sz
        (reference_chain (session_cache st2) (next_cache_id st2) (drop 2 stack)))"
    "in_handler st2 \<Longrightarrow> st' = st2"
    by simp_all
qed

lemma ensure_view:
  assumes "(if \<not> b then init E st else Inr st) = Inr st1"
  shows "heap st1 = heap st" "stream st1 = stream st" "session_cache st1 = session_cache st"
    "next_cache_id st1 = next_cache_id st" "in_handler st1 = in_handler st"
    "in_handler st \<Longrightarrow> st1 = st" "threadData st1 = threadData st"
    "next_thread_id st1 = next_thread_id st"
  using assms init_Inr [of E st st1]
  by (auto simp: stream_def session_cache_def split: if_splits)

lemma heap_update_view [simp]:
  "stream (st\<lparr>heap := h\<rparr>) = stream st"
  "session_cache (st\<lparr>heap := h\<rparr>) = session_cache st"
  "stream (st\<lparr>in_handler := b\<rparr>) = stream st"
  "session_cache (st\<lparr>in_handler := b\<rparr>) = session_cache st"
  "stream (st\<lparr>dummy_calloc_offset := x\<rparr>) = stream st"
  "session_cache (st\<lparr>dummy_calloc_offset := x\<rparr>) = session_cache st"
  by (simp_all add: stream_def session_cache_def)

lemma init_returns:
  "(\<exists>st1. init E st = Inr st1) \<longleftrightarrow> \<not> in_handler st \<and> list_all (dlsym_next E) real_symbols"
proof -
  have "find (\<lambda>nm. \<not> dlsym_next E nm) real_symbols = None \<longleftrightarrow> list_all (dlsym_next E) real_symbols"
    by (auto simp: find_None_iff list_all_iff)
  moreover have "(\<exists>st1. init E st = Inr st1) \<longleftrightarrow>
      \<not> in_handler st \<and> find (\<lambda>nm. \<not> dlsym_next E nm) real_symbols = None"
    by (cases "find (\<lambda>nm. \<not> dlsym_next E nm) real_symbols") (simp_all add: init_def Let_def)
  ultimately show ?thesis by simp
qed

lemma ensure_returns:
  "(\<exists>st1. (if \<not> b then init E st else Inr st) = Inr st1) \<longleftrightarrow>
     b \<or> (\<not> in_handler st \<and> list_all (dlsym_next E) real_symbols)"
  using init_returns [of E st] by auto

lemma fopen_wa:
  "fopen E fn ''wa'' = (if can_open E fn then Some \<lparr>path = fn, content = []\<rparr> else None)"
  by (simp add: fopen_def)

lemma ctor_returns:
  "(\<exists>td st1. ThreadData_ctor E st = Inr (td, st1)) \<longleftrightarrow> can_open E (outputFileName E (next_thread_id st))"
  by (simp add: ThreadData_ctor_def Let_def fopen_wa outputFileName_def)

lemma use_returns:
  "(\<exists>td st1. threadData_use E st = Inr (td, st1)) \<longleftrightarrow>
     threadData st \<noteq> None \<or> can_open E (outputFileName E (next_thread_id st))"
  using ctor_returns [of E st]
  by (cases "threadData st") (simp_all add: threadData_use_def)

lemma handleMalloc_returns:
  "(\<exists>st'. handleMalloc E stack ptr sz st = Inr st') \<longleftrightarrow>
     threadData st \<noteq> None \<or> can_open E (outputFileName E (next_thread_id st))"
proof -
  have "(\<exists>st'. handleMalloc E stack ptr sz st = Inr st') \<longleftrightarrow> (\<exists>td st1. threadData_use E st = Inr (td, st1))"
    by (cases "threadData_use E st") (auto simp: handleMalloc_def Let_def split_def)
  then show ?thesis by (simp only: use_returns)
qed

lemma handleFree_returns:
  "(\<exists>st'. handleFree E ptr st = Inr st') \<longleftrightarrow>
     threadData st \<noteq> None \<or> can_open E (outputFileName E (next_thread_id st))"
proof -
  have "(\<exists>st'. handleFree E ptr st = Inr st') \<longleftrightarrow> (\<exists>td st1. threadData_use E st = Inr (td, st1))"
    by (cases "threadData_use E st") (auto simp: handleFree_def)
  then show ?thesis by (simp only: use_returns)
qed

text \<open>The shape shared by the entry points that record one allocation.\<close>

lemma entry_shape:
  assumes "(case (if \<not> b then init E st else Inr st) of
              Inl e \<Rightarrow> Inl e
            | Inr st1 \<Rightarrow>
                (if \<not> in_handler st1
                 then (case handleMalloc E stack (P (heap st1)) sz
                              (st1\<lparr>heap := H (heap st1), in_handler := True\<rparr>) of
                         Inl e \<Rightarrow> Inl e
                       | Inr st3 \<Rightarrow> Inr (R (heap st1), st3\<lparr>in_handler := False\<rparr>))
                 else Inr (R (heap st1), st1\<lparr>heap := H (heap st1)\<rparr>))) = Inr (r, st')"
  shows "r = R (heap st)" "heap st' = H (heap st)" "in_handler st' = in_handler st"
    "stream st' = stream st @ (if in_handler st then [] else alloc_record (P (heap st)) sz
        (reference_chain (session_cache st) (next_cache_id st) (drop 2 stack)))"
    "in_handler st \<Longrightarrow> st' = st\<lparr>heap := H (heap st)\<rparr>"
proof -
  from assms obtain st1 where i: "(if \<not> b then init E st else Inr st) = Inr st1"
    by (auto split: sum.splits)
  note v = ensure_view [OF i]
  have t: "(if \<not> in_handler (st1\<lparr>heap := H (heap st1)\<rparr>)
            then (case handleMalloc E stack (P (heap st1)) sz
                    (st1\<lparr>heap := H (heap st1)\<rparr>\<lparr>in_handler := True\<rparr>) of
                    Inl e \<Rightarrow> Inl e
                  | Inr st3 \<Rightarrow> Inr (R (heap st1), st3\<lparr>in_handler := False\<rparr>))
            else Inr (R (heap st1), st1\<lparr>heap := H (heap st1)\<rparr>)) = Inr (r, st')"
    using assms i by simp
  note tt = traced_tail [OF t]
  show "r = R (heap st)" using tt(1) v by simp
  show "heap st' = H (heap st)" using tt(2) v by simp
  show "in_handler st' = in_handler st" using tt(3) v by simp
  show "stream st' = stream st @ (if in_handler st then [] else alloc_record (P (heap st)) sz
        (reference_chain (session_cache st) (next_cache_id st) (drop 2 stack)))"
    using tt(4) v by simp
  show "in_handler st \<Longrightarrow> st' = st\<lparr>heap := H (heap st)\<rparr>"
    using tt(5) v by simp
qed

lemma entry_shape_returns:
  "(\<exists>r st'. (case (if \<not> b then init E st else Inr st) of
              Inl e \<Rightarrow> Inl e
            | Inr st1 \<Rightarrow>
                (if \<not> in_handler st1
                 then (case handleMalloc E stack (P (heap st1)) sz
                              (st1\<lparr>heap := H (heap st1), in_handler := True\<rparr>) of
                         Inl e \<Rightarrow> Inl e
                       | Inr st3 \<Rightarrow> Inr (R (heap st1), st3\<lparr>in_handler := False\<rparr>))
                 else Inr (R (heap st1), st1\<lparr>heap := H (heap st1)\<rparr>))) = Inr (r, st')) \<longleftrightarrow>
   (b \<or> (\<not> in_handler st \<and> list_all (dlsym_next E) real_symbols)) \<and>
   (in_handler st \<or> threadData st \<noteq> None \<or> can_open E (outputFileName E (next_thread_id st)))"
proof -
  let ?pre = "b \<or> (\<not> in_handler st \<and> list_all (dlsym_next E) real_symbols)"
  show ?thesis
  proof (cases ?pre)
    case False
    then have "\<not> (\<exists>st1. (if \<not> b then init E st else Inr st) = Inr st1)"
      by (simp only: ensure_returns not_False_eq_True)
    then obtain e where "(if \<not> b then init E st else Inr st) = Inl e"
      by (cases "(if \<not> b then init E st else Inr st)") auto
    then show ?thesis using False by (simp only: sum.case, simp)
  next
    case True
    then have "\<exists>st1. (if \<not> b then init E st else Inr st) = Inr st1"
      by (simp only: ensure_returns)
    then obtain st1 where i: "(if \<not> b then init E st else Inr st) = Inr st1" ..
    note v = ensure_view [OF i]
    show ?thesis
    proof (cases "in_handler st1")
      case h: True
      then show ?thesis using True v by (simp only: i sum.case, simp)
    next
      case h: False
      have "(\<exists>st3. handleMalloc E stack (P (heap st1)) sz
                (st1\<lparr>heap := H (heap st1), in_handler := True\<rparr>) = Inr st3) \<longleftrightarrow>
            threadData st \<noteq> None \<or> can_open E (outputFileName E (next_thread_id st))"
        using v by (simp add: handleMalloc_returns)
      then show ?thesis
        using h v True
        by (cases "handleMalloc E stack (P (heap st1)) sz
                (st1\<lparr>heap := H (heap st1), in_handler := True\<rparr>)")
           (simp_all only: i sum.case, simp_all)
    qed
  qed
qed

lemma malloc_shape:
  "malloc E stack sz st =
     (case (if \<not> real_malloc st then init E st else Inr st) of
        Inl e \<Rightarrow> Inl e
      | Inr st1 \<Rightarrow>
          (if \<not> in_handler st1
           then (case handleMalloc E stack (fst (libc_malloc E sz (heap st1))) sz
                        (st1\<lparr>heap := snd (libc_malloc E sz (heap st1)), in_handler := True\<rparr>) of
                   Inl e \<Rightarrow> Inl e
                 | Inr st3 \<Rightarrow> Inr (fst (libc_malloc E sz (heap st1)), st3\<lparr>in_handler := False\<rparr>))
           else Inr (fst (libc_malloc E sz (heap st1)),
                     st1\<lparr>heap := snd (libc_malloc E sz (heap st1))\<rparr>)))"
  by (auto simp: malloc_def Let_def split_def split: sum.splits)

text \<open>
  \<^verbatim>\<open>calloc\<close> has that shape unless \<^verbatim>\<open>real_calloc\<close> is the stand-in.
\<close>

lemma calloc_shape:
  assumes "real_calloc st \<noteq> Dummy_calloc"
  shows "calloc E stack num sz st =
     (case (if \<not> (real_calloc st \<noteq> Nullptr) then init E st else Inr st) of
        Inl e \<Rightarrow> Inl e
      | Inr st1 \<Rightarrow>
          (if \<not> in_handler st1
           then (case handleMalloc E stack (fst (libc_calloc E num sz (heap st1))) (num * sz)
                        (st1\<lparr>heap := snd (libc_calloc E num sz (heap st1)), in_handler := True\<rparr>) of
                   Inl e \<Rightarrow> Inl e
                 | Inr st3 \<Rightarrow> Inr (fst (libc_calloc E num sz (heap st1)), st3\<lparr>in_handler := False\<rparr>))
           else Inr (fst (libc_calloc E num sz (heap st1)),
                     st1\<lparr>heap := snd (libc_calloc E num sz (heap st1))\<rparr>)))"
proof (cases "real_calloc st = Nullptr")
  case True
  show ?thesis
  proof (cases "init E st")
    case (Inl e)
    then show ?thesis using True by (simp add: calloc_def)
  next
    case (Inr st1)
    have "real_calloc st1 \<noteq> Dummy_calloc" using init_Inr(10) [OF Inr] by simp
    then show ?thesis
      using True Inr
      by (auto simp: calloc_def call_real_calloc_def Let_def split_def split: sum.splits)
  qed
next
  case False
  then show ?thesis
    using assms
    by (auto simp: calloc_def call_real_calloc_def Let_def split_def split: sum.splits)
qed

lemma aligned_alloc_shape:
  "aligned_alloc E stack al sz st =
     (case (if \<not> real_aligned_alloc st then init E st else Inr st) of
        Inl e \<Rightarrow> Inl e
      | Inr st1 \<Rightarrow>
          (if \<not> in_handler st1
           then (case handleMalloc E stack (fst (libc_aligned_alloc E al sz (heap st1))) sz
                        (st1\<lparr>heap := snd (libc_aligned_alloc E al sz (heap st1)), in_handler := True\<rparr>) of
                   Inl e \<Rightarrow> Inl e
                 | Inr st3 \<Rightarrow> Inr (fst (libc_aligned_alloc E al sz (heap st1)), st3\<lparr>in_handler := False\<rparr>))
           else Inr (fst (libc_aligned_alloc E al sz (heap st1)),
                     st1\<lparr>heap := snd (libc_aligned_alloc E al sz (heap st1))\<rparr>)))"
  by (auto simp: aligned_alloc_def Let_def split_def split: sum.splits)

lemma valloc_shape:
  "valloc E stack sz st =
     (case (if \<not> real_valloc st then init E st else Inr st) of
        Inl e \<Rightarrow> Inl e
      | Inr st1 \<Rightarrow>
          (if \<not> in_handler st1
           then (case handleMalloc E stack (fst (libc_valloc E sz (heap st1))) sz
                        (st1\<lparr>heap := snd (libc_valloc E sz (heap st1)), in_handler := True\<rparr>) of
                   Inl e \<Rightarrow> Inl e
                 | Inr st3 \<Rightarrow> Inr (fst (libc_valloc E sz (heap st1)), st3\<lparr>in_handler := False\<rparr>))
           else Inr (fst (libc_valloc E sz (heap st1)),
                     st1\<lparr>heap := snd (libc_valloc E sz (heap st1))\<rparr>)))"
  by (auto simp: valloc_def Let_def split_def split: sum.splits)

lemma posix_memalign_shape:
  "posix_memalign E stack memptr al sz st =
     (case (if \<not> real_posix_memalign st then init E st else Inr st) of
        Inl e \<Rightarrow> Inl e
      | Inr st1 \<Rightarrow>
          (if \<not> in_handler st1
           then (case handleMalloc E stack (snd (fst (libc_posix_memalign E memptr al sz (heap st1)))) sz
                        (st1\<lparr>heap := snd (libc_posix_memalign E memptr al sz (heap st1)),
                             in_handler := True\<rparr>) of
                   Inl e \<Rightarrow> Inl e
                 | Inr st3 \<Rightarrow> Inr (fst (libc_posix_memalign E memptr al sz (heap st1)),
                                  st3\<lparr>in_handler := False\<rparr>))
           else Inr (fst (libc_posix_memalign E memptr al sz (heap st1)),
                     st1\<lparr>heap := snd (libc_posix_memalign E memptr al sz (heap st1))\<rparr>)))"
  by (auto simp: posix_memalign_def Let_def split_def split: sum.splits)

lemmas malloc_Inr = entry_shape [where P = "\<lambda>h. fst (libc_malloc E sz h)"
    and R = "\<lambda>h. fst (libc_malloc E sz h)" and H = "\<lambda>h. snd (libc_malloc E sz h)"
    and b = "real_malloc st" and E = E and st = st and sz = sz, folded malloc_shape] for E sz st

lemmas malloc_returns = entry_shape_returns [where P = "\<lambda>h. fst (libc_malloc E sz h)"
    and R = "\<lambda>h. fst (libc_malloc E sz h)" and H = "\<lambda>h. snd (libc_malloc E sz h)"
    and b = "real_malloc st" and E = E and st = st and sz = sz, folded malloc_shape] for E sz st

lemmas calloc_Inr_shape = entry_shape [where P = "\<lambda>h. fst (libc_calloc E num sz h)"
    and R = "\<lambda>h. fst (libc_calloc E num sz h)" and H = "\<lambda>h. snd (libc_calloc E num sz h)"
    and b = "real_calloc st \<noteq> Nullptr" and E = E and st = st and sz = "num * sz"]
  for E num sz st

lemmas calloc_returns_shape = entry_shape_returns [where P = "\<lambda>h. fst (libc_calloc E num sz h)"
    and R = "\<lambda>h. fst (libc_calloc E num sz h)" and H = "\<lambda>h. snd (libc_calloc E num sz h)"
    and b = "real_calloc st \<noteq> Nullptr" and E = E and st = st and sz = "num * sz"]
  for E num sz st

lemmas aligned_alloc_Inr = entry_shape [where P = "\<lambda>h. fst (libc_aligned_alloc E al sz h)"
    and R = "\<lambda>h. fst (libc_aligned_alloc E al sz h)"
    and H = "\<lambda>h. snd (libc_aligned_alloc E al sz h)"
    and b = "real_aligned_alloc st" and E = E and st = st and sz = sz, folded aligned_alloc_shape]
  for E al sz st

lemmas aligned_alloc_returns = entry_shape_returns [where P = "\<lambda>h. fst (libc_aligned_alloc E al sz h)"
    and R = "\<lambda>h. fst (libc_aligned_alloc E al sz h)"
    and H = "\<lambda>h. snd (libc_aligned_alloc E al sz h)"
    and b = "real_aligned_alloc st" and E = E and st = st and sz = sz, folded aligned_alloc_shape]
  for E al sz st

lemmas valloc_Inr = entry_shape [where P = "\<lambda>h. fst (libc_valloc E sz h)"
    and R = "\<lambda>h. fst (libc_valloc E sz h)" and H = "\<lambda>h. snd (libc_valloc E sz h)"
    and b = "real_valloc st" and E = E and st = st and sz = sz, folded valloc_shape] for E sz st

lemmas valloc_returns = entry_shape_returns [where P = "\<lambda>h. fst (libc_valloc E sz h)"
    and R = "\<lambda>h. fst (libc_valloc E sz h)" and H = "\<lambda>h. snd (libc_valloc E sz h)"
    and b = "real_valloc st" and E = E and st = st and sz = sz, folded valloc_shape] for E sz st

lemmas posix_memalign_Inr = entry_shape [where
    P = "\<lambda>h. snd (fst (libc_posix_memalign E memptr al sz h))"
    and R = "\<lambda>h. fst (libc_posix_memalign E memptr al sz h)"
    and H = "\<lambda>h. snd (libc_posix_memalign E memptr al sz h)"
    and b = "real_posix_memalign st" and E = E and st = st and sz = sz,
    folded posix_memalign_shape] for E memptr al sz st

lemmas posix_memalign_returns = entry_shape_returns [where
    P = "\<lambda>h. snd (fst (libc_posix_memalign E memptr al sz h))"
    and R = "\<lambda>h. fst (libc_posix_memalign E memptr al sz h)"
    and H = "\<lambda>h. snd (libc_posix_memalign E memptr al sz h)"
    and b = "real_posix_memalign st" and E = E and st = st and sz = sz,
    folded posix_memalign_shape] for E memptr al sz st

lemma free_Inr:
  assumes "free E ptr st = Inr st'"
  shows "heap st' = libc_free E ptr (heap st)" "in_handler st' = in_handler st"
    "stream st' = stream st @ (if in_handler st then [] else free_record ptr)"
    "in_handler st \<Longrightarrow> st' = st\<lparr>heap := libc_free E ptr (heap st)\<rparr>"
proof -
  from assms obtain st1 where i: "(if \<not> real_free st then init E st else Inr st) = Inr st1"
    by (auto simp: free_def split: sum.splits)
  note v = ensure_view [OF i]
  have f: "free E ptr st =
      (if \<not> in_handler st1
       then (case handleFree E ptr (st1\<lparr>heap := libc_free E ptr (heap st1), in_handler := True\<rparr>) of
               Inl e \<Rightarrow> Inl e
             | Inr st3 \<Rightarrow> Inr (st3\<lparr>in_handler := False\<rparr>))
       else Inr (st1\<lparr>heap := libc_free E ptr (heap st1)\<rparr>))"
    unfolding free_def i by (simp add: Let_def)
  have "heap st' = libc_free E ptr (heap st) \<and> in_handler st' = in_handler st \<and>
    stream st' = stream st @ (if in_handler st then [] else free_record ptr) \<and>
    (in_handler st \<longrightarrow> st' = st\<lparr>heap := libc_free E ptr (heap st)\<rparr>)"
  proof (cases "in_handler st")
    case True
    then have "st1 = st" "in_handler st1" using v by simp_all
    then have "st' = st\<lparr>heap := libc_free E ptr (heap st)\<rparr>"
      using assms f by simp
    then show ?thesis using True by simp
  next
    case False
    then have n: "\<not> in_handler st1" using v by simp
    obtain st3 where
      h: "handleFree E ptr (st1\<lparr>heap := libc_free E ptr (heap st1), in_handler := True\<rparr>) = Inr st3"
      and e: "st' = st3\<lparr>in_handler := False\<rparr>"
      using assms f n
      by (cases "handleFree E ptr (st1\<lparr>heap := libc_free E ptr (heap st1), in_handler := True\<rparr>)")
         simp_all
    show ?thesis
      using handleFree_Inr [OF h] False v by (simp add: e)
  qed
  then show "heap st' = libc_free E ptr (heap st)" "in_handler st' = in_handler st"
    "stream st' = stream st @ (if in_handler st then [] else free_record ptr)"
    "in_handler st \<Longrightarrow> st' = st\<lparr>heap := libc_free E ptr (heap st)\<rparr>"
    by simp_all
qed

lemma realloc_Inr:
  assumes "realloc E stack ptr sz st = Inr (r, st')"
  shows "r = fst (libc_realloc E ptr sz (heap st))"
    "heap st' = snd (libc_realloc E ptr sz (heap st))" "in_handler st' = in_handler st"
    "stream st' = stream st @ (if in_handler st then [] else free_record ptr @ alloc_record r sz
        (reference_chain (session_cache st) (next_cache_id st) (drop 2 stack)))"
    "in_handler st \<Longrightarrow> st' = st\<lparr>heap := snd (libc_realloc E ptr sz (heap st))\<rparr>"
proof -
  from assms obtain st1 where i: "(if \<not> real_realloc st then init E st else Inr st) = Inr st1"
    by (auto simp: realloc_def split: sum.splits)
  note v = ensure_view [OF i]
  let ?ret = "fst (libc_realloc E ptr sz (heap st1))"
  let ?h = "snd (libc_realloc E ptr sz (heap st1))"
  have f: "realloc E stack ptr sz st =
      (if \<not> in_handler st1
       then (case handleFree E ptr (st1\<lparr>heap := ?h, in_handler := True\<rparr>) of
               Inl e \<Rightarrow> Inl e
             | Inr st3 \<Rightarrow>
                 (case handleMalloc E stack ?ret sz st3 of
                    Inl e \<Rightarrow> Inl e
                  | Inr st4 \<Rightarrow> Inr (?ret, st4\<lparr>in_handler := False\<rparr>)))
       else Inr (?ret, st1\<lparr>heap := ?h\<rparr>))"
    unfolding realloc_def i by (simp add: Let_def split_def)
  have "r = fst (libc_realloc E ptr sz (heap st)) \<and>
    heap st' = snd (libc_realloc E ptr sz (heap st)) \<and> in_handler st' = in_handler st \<and>
    stream st' = stream st @ (if in_handler st then [] else free_record ptr @ alloc_record r sz
        (reference_chain (session_cache st) (next_cache_id st) (drop 2 stack))) \<and>
    (in_handler st \<longrightarrow> st' = st\<lparr>heap := snd (libc_realloc E ptr sz (heap st))\<rparr>)"
  proof (cases "in_handler st")
    case True
    then have "st1 = st" "in_handler st1" using v by simp_all
    then have "r = fst (libc_realloc E ptr sz (heap st))"
      "st' = st\<lparr>heap := snd (libc_realloc E ptr sz (heap st))\<rparr>"
      using assms f by simp_all
    then show ?thesis using True by simp
  next
    case False
    then have n: "\<not> in_handler st1" using v by simp
    obtain st3 where
      h: "handleFree E ptr (st1\<lparr>heap := ?h, in_handler := True\<rparr>) = Inr st3"
      using assms f n
      by (cases "handleFree E ptr (st1\<lparr>heap := ?h, in_handler := True\<rparr>)") simp_all
    obtain st4 where m: "handleMalloc E stack ?ret sz st3 = Inr st4"
      and e: "r = ?ret" "st' = st4\<lparr>in_handler := False\<rparr>"
      using assms f n h by (cases "handleMalloc E stack ?ret sz st3") simp_all
    show ?thesis
      using handleFree_Inr [OF h] handleMalloc_Inr [OF m] False v
      by (simp add: e)
  qed
  then show "r = fst (libc_realloc E ptr sz (heap st))"
    "heap st' = snd (libc_realloc E ptr sz (heap st))" "in_handler st' = in_handler st"
    "stream st' = stream st @ (if in_handler st then [] else free_record ptr @ alloc_record r sz
        (reference_chain (session_cache st) (next_cache_id st) (drop 2 stack)))"
    "in_handler st \<Longrightarrow> st' = st\<lparr>heap := snd (libc_realloc E ptr sz (heap st))\<rparr>"
    by simp_all
qed

lemma handleFree_session:
  assumes "handleFree E ptr st = Inr st'"
  shows "threadData st' \<noteq> None"
  using assms by (auto simp: handleFree_def split: sum.splits)

lemma entry_shape_steps:
  assumes "(case (if \<not> b then init E st else Inr st) of
              Inl e \<Rightarrow> Inl e
            | Inr st1 \<Rightarrow>
                (if \<not> in_handler st1
                 then (case handleMalloc E stack (P (heap st1)) sz
                              (st1\<lparr>heap := H (heap st1), in_handler := True\<rparr>) of
                         Inl e \<Rightarrow> Inl e
                       | Inr st3 \<Rightarrow> Inr (R (heap st1), st3\<lparr>in_handler := False\<rparr>))
                 else Inr (R (heap st1), st1\<lparr>heap := H (heap st1)\<rparr>))) = Inr (r, st')"
    and "\<not> in_handler st"
  shows "\<exists>st1 s'. (if \<not> b then init E st else Inr st) = Inr st1
           \<and> handleMalloc E stack (P (heap st1)) sz
                (st1\<lparr>heap := H (heap st1), in_handler := True\<rparr>) = Inr s'
           \<and> in_handler s' \<and> st' = s'\<lparr>in_handler := False\<rparr>"
proof -
  from assms(1) obtain st1 where i: "(if \<not> b then init E st else Inr st) = Inr st1"
    by (auto split: sum.splits)
  have n: "\<not> in_handler st1" using ensure_view(5) [OF i] assms(2) by simp
  obtain s' where h: "handleMalloc E stack (P (heap st1)) sz
      (st1\<lparr>heap := H (heap st1), in_handler := True\<rparr>) = Inr s'"
    and e: "st' = s'\<lparr>in_handler := False\<rparr>"
    using assms(1) n
    by (cases "handleMalloc E stack (P (heap st1)) sz
      (st1\<lparr>heap := H (heap st1), in_handler := True\<rparr>)") (simp_all only: i sum.case, simp_all)
  have "in_handler s'" using handleMalloc_Inr(3) [OF h] by simp
  then show ?thesis using i h e by blast
qed

lemmas malloc_steps = entry_shape_steps [where P = "\<lambda>h. fst (libc_malloc E sz h)"
    and R = "\<lambda>h. fst (libc_malloc E sz h)" and H = "\<lambda>h. snd (libc_malloc E sz h)"
    and b = "real_malloc st" and E = E and st = st and sz = sz, folded malloc_shape] for E sz st

lemmas calloc_steps_shape = entry_shape_steps [where P = "\<lambda>h. fst (libc_calloc E num sz h)"
    and R = "\<lambda>h. fst (libc_calloc E num sz h)" and H = "\<lambda>h. snd (libc_calloc E num sz h)"
    and b = "real_calloc st \<noteq> Nullptr" and E = E and st = st and sz = "num * sz"]
  for E num sz st

lemmas aligned_alloc_steps = entry_shape_steps [where P = "\<lambda>h. fst (libc_aligned_alloc E al sz h)"
    and R = "\<lambda>h. fst (libc_aligned_alloc E al sz h)"
    and H = "\<lambda>h. snd (libc_aligned_alloc E al sz h)"
    and b = "real_aligned_alloc st" and E = E and st = st and sz = sz, folded aligned_alloc_shape]
  for E al sz st

lemmas valloc_steps = entry_shape_steps [where P = "\<lambda>h. fst (libc_valloc E sz h)"
    and R = "\<lambda>h. fst (libc_valloc E sz h)" and H = "\<lambda>h. snd (libc_valloc E sz h)"
    and b = "real_valloc st" and E = E and st = st and sz = sz, folded valloc_shape] for E sz st

lemmas posix_memalign_steps = entry_shape_steps [where
    P = "\<lambda>h. snd (fst (libc_posix_memalign E memptr al sz h))"
    and R = "\<lambda>h. fst (libc_posix_memalign E memptr al sz h)"
    and H = "\<lambda>h. snd (libc_posix_memalign E memptr al sz h)"
    and b = "real_posix_memalign st" and E = E and st = st and sz = sz,
    folded posix_memalign_shape] for E memptr al sz st

text \<open>\<^verbatim>\<open>calloc\<close> when \<^verbatim>\<open>real_calloc\<close> is null or the function \<^verbatim>\<open>dlsym\<close> found.\<close>

lemma calloc_Inr:
  assumes "calloc E stack num sz st = Inr (r, st')" and "real_calloc st \<noteq> Dummy_calloc"
  shows "r = fst (libc_calloc E num sz (heap st))"
    "heap st' = snd (libc_calloc E num sz (heap st))" "in_handler st' = in_handler st"
    "stream st' = stream st @ (if in_handler st then []
        else alloc_record (fst (libc_calloc E num sz (heap st))) (num * sz)
          (reference_chain (session_cache st) (next_cache_id st) (drop 2 stack)))"
    "in_handler st \<Longrightarrow> st' = st\<lparr>heap := snd (libc_calloc E num sz (heap st))\<rparr>"
  using calloc_Inr_shape [OF assms(1) [unfolded calloc_shape [OF assms(2)]]] by simp_all

lemma calloc_returns:
  assumes "real_calloc st \<noteq> Dummy_calloc"
  shows "(\<exists>r st'. calloc E stack num sz st = Inr (r, st')) \<longleftrightarrow>
   (real_calloc st \<noteq> Nullptr \<or> (\<not> in_handler st \<and> list_all (dlsym_next E) real_symbols)) \<and>
   (in_handler st \<or> threadData st \<noteq> None \<or> can_open E (outputFileName E (next_thread_id st)))"
  unfolding calloc_shape [OF assms] by (rule calloc_returns_shape)

lemma calloc_steps:
  assumes "calloc E stack num sz st = Inr (r, st')" and "\<not> in_handler st"
    and "real_calloc st \<noteq> Dummy_calloc"
  shows "\<exists>st1 s'. (if \<not> (real_calloc st \<noteq> Nullptr) then init E st else Inr st) = Inr st1
           \<and> handleMalloc E stack (fst (libc_calloc E num sz (heap st1))) (num * sz)
                (st1\<lparr>heap := snd (libc_calloc E num sz (heap st1)), in_handler := True\<rparr>) = Inr s'
           \<and> in_handler s' \<and> st' = s'\<lparr>in_handler := False\<rparr>"
  using calloc_steps_shape [OF assms(1) [unfolded calloc_shape [OF assms(3)]] assms(2)] .

text \<open>\<^verbatim>\<open>calloc\<close> when \<^verbatim>\<open>real_calloc\<close> is the stand-in.\<close>

lemma dummy_calloc_room:
  assumes "\<not> MAX_SIZE \<le> dummy_calloc_offset st + num * sz"
  shows "dummy_calloc E num sz st =
     Inr (dummy_buf E + 8 * dummy_calloc_offset st,
          st\<lparr>dummy_calloc_offset := dummy_calloc_offset st + num * sz\<rparr>)"
  using assms by (simp add: dummy_calloc_def Let_def)

lemma dummy_calloc_full:
  assumes "MAX_SIZE \<le> dummy_calloc_offset st + num * sz"
  shows "\<exists>e. dummy_calloc E num sz st = Inl e"
  using assms by (simp add: dummy_calloc_def Let_def)

lemma calloc_dummy_shape:
  assumes "real_calloc st = Dummy_calloc"
  shows "calloc E stack num sz st =
     (case dummy_calloc E num sz st of
        Inl e \<Rightarrow> Inl e
      | Inr (ret, st2) \<Rightarrow>
          (if \<not> in_handler st2
           then (case handleMalloc E stack ret (num * sz) (st2\<lparr>in_handler := True\<rparr>) of
                   Inl e \<Rightarrow> Inl e
                 | Inr st3 \<Rightarrow> Inr (ret, st3\<lparr>in_handler := False\<rparr>))
           else Inr (ret, st2)))"
  using assms by (simp add: calloc_def call_real_calloc_def)

lemma calloc_dummy_tail:
  assumes "calloc E stack num sz st = Inr (r, st')" and "real_calloc st = Dummy_calloc"
  shows "\<not> MAX_SIZE \<le> dummy_calloc_offset st + num * sz"
    "(if \<not> in_handler (st\<lparr>dummy_calloc_offset := dummy_calloc_offset st + num * sz\<rparr>)
      then (case handleMalloc E stack (dummy_buf E + 8 * dummy_calloc_offset st) (num * sz)
                   (st\<lparr>dummy_calloc_offset := dummy_calloc_offset st + num * sz\<rparr>
                      \<lparr>in_handler := True\<rparr>) of
              Inl e \<Rightarrow> Inl e
            | Inr st3 \<Rightarrow> Inr (dummy_buf E + 8 * dummy_calloc_offset st, st3\<lparr>in_handler := False\<rparr>))
      else Inr (dummy_buf E + 8 * dummy_calloc_offset st,
                st\<lparr>dummy_calloc_offset := dummy_calloc_offset st + num * sz\<rparr>)) = Inr (r, st')"
proof -
  show room: "\<not> MAX_SIZE \<le> dummy_calloc_offset st + num * sz"
  proof
    assume "MAX_SIZE \<le> dummy_calloc_offset st + num * sz"
    then obtain e where "dummy_calloc E num sz st = Inl e"
      using dummy_calloc_full by blast
    then show False using assms(1) unfolding calloc_dummy_shape [OF assms(2)] by simp
  qed
  show "(if \<not> in_handler (st\<lparr>dummy_calloc_offset := dummy_calloc_offset st + num * sz\<rparr>)
      then (case handleMalloc E stack (dummy_buf E + 8 * dummy_calloc_offset st) (num * sz)
                   (st\<lparr>dummy_calloc_offset := dummy_calloc_offset st + num * sz\<rparr>
                      \<lparr>in_handler := True\<rparr>) of
              Inl e \<Rightarrow> Inl e
            | Inr st3 \<Rightarrow> Inr (dummy_buf E + 8 * dummy_calloc_offset st, st3\<lparr>in_handler := False\<rparr>))
      else Inr (dummy_buf E + 8 * dummy_calloc_offset st,
                st\<lparr>dummy_calloc_offset := dummy_calloc_offset st + num * sz\<rparr>)) = Inr (r, st')"
    using assms(1) unfolding calloc_dummy_shape [OF assms(2)] dummy_calloc_room [OF room]
    by simp
qed

lemma calloc_dummy_Inr:
  assumes "calloc E stack num sz st = Inr (r, st')" and "real_calloc st = Dummy_calloc"
  shows "r = dummy_buf E + 8 * dummy_calloc_offset st" "heap st' = heap st"
    "in_handler st' = in_handler st"
    "stream st' = stream st @ (if in_handler st then []
        else alloc_record (dummy_buf E + 8 * dummy_calloc_offset st) (num * sz)
          (reference_chain (session_cache st) (next_cache_id st) (drop 2 stack)))"
    "in_handler st \<Longrightarrow> st' = st\<lparr>dummy_calloc_offset := dummy_calloc_offset st + num * sz\<rparr>"
    "\<not> MAX_SIZE \<le> dummy_calloc_offset st + num * sz"
  using traced_tail [OF calloc_dummy_tail(2) [OF assms]] calloc_dummy_tail(1) [OF assms]
  by simp_all

lemma calloc_dummy_returns:
  assumes "real_calloc st = Dummy_calloc"
  shows "(\<exists>r st'. calloc E stack num sz st = Inr (r, st')) \<longleftrightarrow>
     \<not> MAX_SIZE \<le> dummy_calloc_offset st + num * sz \<and>
     (in_handler st \<or> threadData st \<noteq> None \<or> can_open E (outputFileName E (next_thread_id st)))"
proof (cases "MAX_SIZE \<le> dummy_calloc_offset st + num * sz")
  case True
  then obtain e where "dummy_calloc E num sz st = Inl e"
    using dummy_calloc_full by blast
  then show ?thesis using True unfolding calloc_dummy_shape [OF assms] by simp
next
  case False
  let ?st2 = "st\<lparr>dummy_calloc_offset := dummy_calloc_offset st + num * sz\<rparr>"
  let ?p = "dummy_buf E + 8 * dummy_calloc_offset st"
  show ?thesis
  proof (cases "in_handler st")
    case True
    then show ?thesis
      using False unfolding calloc_dummy_shape [OF assms] dummy_calloc_room [OF False] by simp
  next
    case g: False
    have "(\<exists>st3. handleMalloc E stack ?p (num * sz) (?st2\<lparr>in_handler := True\<rparr>) = Inr st3) \<longleftrightarrow>
        threadData st \<noteq> None \<or> can_open E (outputFileName E (next_thread_id st))"
      by (simp add: handleMalloc_returns)
    then show ?thesis
      using g False unfolding calloc_dummy_shape [OF assms] dummy_calloc_room [OF False]
      by (cases "handleMalloc E stack ?p (num * sz) (?st2\<lparr>in_handler := True\<rparr>)") simp_all
  qed
qed

lemma calloc_dummy_steps:
  assumes "calloc E stack num sz st = Inr (r, st')" and "\<not> in_handler st"
    and "real_calloc st = Dummy_calloc"
  shows "\<exists>st2 s'. dummy_calloc E num sz st = Inr (r, st2)
           \<and> handleMalloc E stack r (num * sz) (st2\<lparr>in_handler := True\<rparr>) = Inr s'
           \<and> in_handler s' \<and> st' = s'\<lparr>in_handler := False\<rparr>"
proof -
  let ?st2 = "st\<lparr>dummy_calloc_offset := dummy_calloc_offset st + num * sz\<rparr>"
  let ?p = "dummy_buf E + 8 * dummy_calloc_offset st"
  note t = calloc_dummy_tail [OF assms(1) assms(3)]
  obtain s' where h: "handleMalloc E stack ?p (num * sz) (?st2\<lparr>in_handler := True\<rparr>) = Inr s'"
    and e: "r = ?p" "st' = s'\<lparr>in_handler := False\<rparr>"
    using t(2) assms(2)
    by (cases "handleMalloc E stack ?p (num * sz) (?st2\<lparr>in_handler := True\<rparr>)") simp_all
  have "in_handler s'" using handleMalloc_Inr(3) [OF h] by simp
  then show ?thesis using h e dummy_calloc_room [OF t(1)] by simp
qed

text \<open>What \<^verbatim>\<open>calloc\<close> records, whatever \<^verbatim>\<open>real_calloc\<close> is.\<close>

lemma calloc_stream:
  assumes "calloc E stack num sz st = Inr (r, st')"
  shows "in_handler st' = in_handler st"
    "stream st' = stream st @ (if in_handler st then []
        else alloc_record r (num * sz)
          (reference_chain (session_cache st) (next_cache_id st) (drop 2 stack)))"
proof -
  have "in_handler st' = in_handler st \<and>
    stream st' = stream st @ (if in_handler st then []
        else alloc_record r (num * sz)
          (reference_chain (session_cache st) (next_cache_id st) (drop 2 stack)))"
  proof (cases "real_calloc st = Dummy_calloc")
    case True
    show ?thesis
      using calloc_dummy_Inr(1,3,4) [OF assms True] by simp
  next
    case False
    show ?thesis
      using calloc_Inr(1,3,4) [OF assms False] by simp
  qed
  then show "in_handler st' = in_handler st"
    "stream st' = stream st @ (if in_handler st then []
        else alloc_record r (num * sz)
          (reference_chain (session_cache st) (next_cache_id st) (drop 2 stack)))"
    by simp_all
qed

lemma free_shape:
  "free E ptr st =
     (case (if \<not> real_free st then init E st else Inr st) of
        Inl e \<Rightarrow> Inl e
      | Inr st1 \<Rightarrow>
          (if \<not> in_handler st1
           then (case handleFree E ptr (st1\<lparr>heap := libc_free E ptr (heap st1), in_handler := True\<rparr>) of
                   Inl e \<Rightarrow> Inl e
                 | Inr st3 \<Rightarrow> Inr (st3\<lparr>in_handler := False\<rparr>))
           else Inr (st1\<lparr>heap := libc_free E ptr (heap st1)\<rparr>)))"
  by (auto simp: free_def Let_def split: sum.splits)

lemma realloc_shape:
  "realloc E stack ptr sz st =
     (case (if \<not> real_realloc st then init E st else Inr st) of
        Inl e \<Rightarrow> Inl e
      | Inr st1 \<Rightarrow>
          (if \<not> in_handler st1
           then (case handleFree E ptr
                        (st1\<lparr>heap := snd (libc_realloc E ptr sz (heap st1)), in_handler := True\<rparr>) of
                   Inl e \<Rightarrow> Inl e
                 | Inr st3 \<Rightarrow>
                     (case handleMalloc E stack (fst (libc_realloc E ptr sz (heap st1))) sz st3 of
                        Inl e \<Rightarrow> Inl e
                      | Inr st4 \<Rightarrow> Inr (fst (libc_realloc E ptr sz (heap st1)),
                                       st4\<lparr>in_handler := False\<rparr>)))
           else Inr (fst (libc_realloc E ptr sz (heap st1)),
                     st1\<lparr>heap := snd (libc_realloc E ptr sz (heap st1))\<rparr>)))"
  by (auto simp: realloc_def Let_def split_def split: sum.splits)

lemma free_steps:
  assumes "free E ptr st = Inr st'" and "\<not> in_handler st"
  shows "\<exists>st1 s'. (if \<not> real_free st then init E st else Inr st) = Inr st1
           \<and> handleFree E ptr (st1\<lparr>heap := libc_free E ptr (heap st1), in_handler := True\<rparr>) = Inr s'
           \<and> in_handler s' \<and> st' = s'\<lparr>in_handler := False\<rparr>"
proof -
  from assms(1) obtain st1 where i: "(if \<not> real_free st then init E st else Inr st) = Inr st1"
    by (auto simp: free_def split: sum.splits)
  have n: "\<not> in_handler st1" using ensure_view(5) [OF i] assms(2) by simp
  obtain s' where
    h: "handleFree E ptr (st1\<lparr>heap := libc_free E ptr (heap st1), in_handler := True\<rparr>) = Inr s'"
    and e: "st' = s'\<lparr>in_handler := False\<rparr>"
    using assms(1) n unfolding free_shape
    by (cases "handleFree E ptr (st1\<lparr>heap := libc_free E ptr (heap st1), in_handler := True\<rparr>)")
       (simp_all only: i sum.case, simp_all)
  have "in_handler s'" using handleFree_Inr(3) [OF h] by simp
  then show ?thesis using i h e by blast
qed

lemma free_returns:
  "(\<exists>st'. free E ptr st = Inr st') \<longleftrightarrow>
   (real_free st \<or> (\<not> in_handler st \<and> list_all (dlsym_next E) real_symbols)) \<and>
   (in_handler st \<or> threadData st \<noteq> None \<or> can_open E (outputFileName E (next_thread_id st)))"
proof -
  let ?pre = "real_free st \<or> (\<not> in_handler st \<and> list_all (dlsym_next E) real_symbols)"
  show ?thesis
  proof (cases ?pre)
    case False
    then have "\<not> (\<exists>st1. (if \<not> real_free st then init E st else Inr st) = Inr st1)"
      by (simp only: ensure_returns not_False_eq_True)
    then obtain e where "(if \<not> real_free st then init E st else Inr st) = Inl e"
      by (cases "(if \<not> real_free st then init E st else Inr st)") auto
    then show ?thesis using False unfolding free_shape by (simp only: sum.case, simp)
  next
    case True
    then have "\<exists>st1. (if \<not> real_free st then init E st else Inr st) = Inr st1"
      by (simp only: ensure_returns)
    then obtain st1 where i: "(if \<not> real_free st then init E st else Inr st) = Inr st1" ..
    note v = ensure_view [OF i]
    show ?thesis
    proof (cases "in_handler st1")
      case h: True
      then show ?thesis using True v unfolding free_shape by (simp only: i sum.case, simp)
    next
      case h: False
      have "(\<exists>st3. handleFree E ptr
                (st1\<lparr>heap := libc_free E ptr (heap st1), in_handler := True\<rparr>) = Inr st3) \<longleftrightarrow>
            threadData st \<noteq> None \<or> can_open E (outputFileName E (next_thread_id st))"
        using v by (simp add: handleFree_returns)
      then show ?thesis
        using h v True unfolding free_shape
        by (cases "handleFree E ptr
                (st1\<lparr>heap := libc_free E ptr (heap st1), in_handler := True\<rparr>)")
           (simp_all only: i sum.case, simp_all)
    qed
  qed
qed

lemma realloc_steps:
  assumes "realloc E stack ptr sz st = Inr (r, st')" and "\<not> in_handler st"
  shows "\<exists>st1 s2 s'. (if \<not> real_realloc st then init E st else Inr st) = Inr st1
           \<and> handleFree E ptr
                (st1\<lparr>heap := snd (libc_realloc E ptr sz (heap st1)), in_handler := True\<rparr>) = Inr s2
           \<and> handleMalloc E stack r sz s2 = Inr s'
           \<and> in_handler s' \<and> st' = s'\<lparr>in_handler := False\<rparr>"
proof -
  from assms(1) obtain st1 where i: "(if \<not> real_realloc st then init E st else Inr st) = Inr st1"
    by (auto simp: realloc_def split: sum.splits)
  have n: "\<not> in_handler st1" using ensure_view(5) [OF i] assms(2) by simp
  let ?s = "st1\<lparr>heap := snd (libc_realloc E ptr sz (heap st1)), in_handler := True\<rparr>"
  obtain s2 where h: "handleFree E ptr ?s = Inr s2"
    using assms(1) n unfolding realloc_shape
    by (cases "handleFree E ptr ?s") (simp_all only: i sum.case, simp_all)
  obtain s' where m: "handleMalloc E stack (fst (libc_realloc E ptr sz (heap st1))) sz s2 = Inr s'"
    and e: "r = fst (libc_realloc E ptr sz (heap st1))" "st' = s'\<lparr>in_handler := False\<rparr>"
    using assms(1) n h unfolding realloc_shape
    by (cases "handleMalloc E stack (fst (libc_realloc E ptr sz (heap st1))) sz s2")
       (simp_all only: i sum.case, simp_all)
  have "in_handler s'" using handleMalloc_Inr(3) [OF m] handleFree_Inr(3) [OF h] by simp
  then show ?thesis using i h m e by blast
qed

lemma realloc_returns:
  "(\<exists>r st'. realloc E stack ptr sz st = Inr (r, st')) \<longleftrightarrow>
   (real_realloc st \<or> (\<not> in_handler st \<and> list_all (dlsym_next E) real_symbols)) \<and>
   (in_handler st \<or> threadData st \<noteq> None \<or> can_open E (outputFileName E (next_thread_id st)))"
proof -
  let ?pre = "real_realloc st \<or> (\<not> in_handler st \<and> list_all (dlsym_next E) real_symbols)"
  show ?thesis
  proof (cases ?pre)
    case False
    then have "\<not> (\<exists>st1. (if \<not> real_realloc st then init E st else Inr st) = Inr st1)"
      by (simp only: ensure_returns not_False_eq_True)
    then obtain e where "(if \<not> real_realloc st then init E st else Inr st) = Inl e"
      by (cases "(if \<not> real_realloc st then init E st else Inr st)") auto
    then show ?thesis using False unfolding realloc_shape by (simp only: sum.case, simp)
  next
    case True
    then have "\<exists>st1. (if \<not> real_realloc st then init E st else Inr st) = Inr st1"
      by (simp only: ensure_returns)
    then obtain st1 where i: "(if \<not> real_realloc st then init E st else Inr st) = Inr st1" ..
    note v = ensure_view [OF i]
    let ?s = "st1\<lparr>heap := snd (libc_realloc E ptr sz (heap st1)), in_handler := True\<rparr>"
    show ?thesis
    proof (cases "in_handler st1")
      case h: True
      then show ?thesis using True v unfolding realloc_shape by (simp only: i sum.case, simp)
    next
      case h: False
      have c: "(\<exists>s2. handleFree E ptr ?s = Inr s2) \<longleftrightarrow>
            threadData st \<noteq> None \<or> can_open E (outputFileName E (next_thread_id st))"
        using v by (simp add: handleFree_returns)
      show ?thesis
      proof (cases "handleFree E ptr ?s")
        case (Inl e)
        then show ?thesis
          using h v True c unfolding realloc_shape by (simp only: i sum.case, simp)
      next
        case (Inr s2)
        have "threadData s2 \<noteq> None" using handleFree_session [OF Inr] .
        then obtain s' where
          m: "handleMalloc E stack (fst (libc_realloc E ptr sz (heap st1))) sz s2 = Inr s'"
          using handleMalloc_returns [of E stack "fst (libc_realloc E ptr sz (heap st1))" sz s2]
          by blast
        show ?thesis
          using h v True c Inr m unfolding realloc_shape by (simp only: i sum.case, simp)
      qed
    qed
  qed
qed

lemma stand_in_iff:
  "stand_in c st \<longleftrightarrow> (\<exists>num sz. c = Calloc num sz) \<and> real_calloc st = Dummy_calloc"
  by (cases c) simp_all

lemma forward_true:
  assumes "\<not> stand_in c st"
  shows "forward E c st =
     Inr (fst (true_call E c (heap st)), st\<lparr>heap := snd (true_call E c (heap st))\<rparr>)"
  using assms
  by (cases c) (simp_all add: call_real_calloc_def with_ptr_def ptr_result_def split_def Let_def)

lemma intercept_Inr:
  assumes "intercept E stack c st = Inr (rv, st')" and "\<not> stand_in c st"
  shows "(rv, heap st') = true_call E c (heap st)" "in_handler st' = in_handler st"
    "stream st' = stream st @
       (if in_handler st then [] else concat (recorded c rv (walk_chain st stack)))"
    "in_handler st \<Longrightarrow> st' = st\<lparr>heap := snd (true_call E c (heap st))\<rparr>"
proof -
  have "(rv, heap st') = true_call E c (heap st) \<and> in_handler st' = in_handler st \<and>
    stream st' = stream st @
       (if in_handler st then [] else concat (recorded c rv (walk_chain st stack))) \<and>
    (in_handler st \<longrightarrow> st' = st\<lparr>heap := snd (true_call E c (heap st))\<rparr>)"
  proof (cases c)
    case (Malloc sz)
    then obtain r where e: "malloc E stack sz st = Inr (r, st')" "rv = Ptr r"
      using assms by (auto simp: with_ptr_def split: sum.splits)
    show ?thesis
      using malloc_Inr [OF e(1)] Malloc e(2) by (simp add: ptr_result_def walk_chain_def)
  next
    case (Free ptr)
    then have e: "free E ptr st = Inr st'" "rv = Void"
      using assms by (auto split: sum.splits)
    show ?thesis
      using free_Inr [OF e(1)] Free e(2) by simp
  next
    case (Realloc ptr sz)
    then obtain r where e: "realloc E stack ptr sz st = Inr (r, st')" "rv = Ptr r"
      using assms by (auto simp: with_ptr_def split: sum.splits)
    show ?thesis
      using realloc_Inr [OF e(1)] Realloc e(2) by (simp add: ptr_result_def walk_chain_def)
  next
    case (Calloc num sz)
    then obtain r where e: "calloc E stack num sz st = Inr (r, st')" "rv = Ptr r"
      using assms by (auto simp: with_ptr_def split: sum.splits)
    have d: "real_calloc st \<noteq> Dummy_calloc" using assms(2) Calloc by simp
    show ?thesis
      using calloc_Inr [OF e(1) d] Calloc e(2) by (simp add: ptr_result_def walk_chain_def)
  next
    case (Posix_memalign memptr al sz)
    then obtain ret m' where e: "posix_memalign E stack memptr al sz st = Inr ((ret, m'), st')"
      "rv = Code ret m'"
      using assms by (auto split: sum.splits)
    show ?thesis
      using posix_memalign_Inr [OF e(1)] Posix_memalign e(2)
      by (simp add: walk_chain_def split_def) (metis fst_conv snd_conv)
  next
    case (Aligned_alloc al sz)
    then obtain r where e: "aligned_alloc E stack al sz st = Inr (r, st')" "rv = Ptr r"
      using assms by (auto simp: with_ptr_def split: sum.splits)
    show ?thesis
      using aligned_alloc_Inr [OF e(1)] Aligned_alloc e(2)
      by (simp add: ptr_result_def walk_chain_def)
  next
    case (Valloc sz)
    then obtain r where e: "valloc E stack sz st = Inr (r, st')" "rv = Ptr r"
      using assms by (auto simp: with_ptr_def split: sum.splits)
    show ?thesis
      using valloc_Inr [OF e(1)] Valloc e(2) by (simp add: ptr_result_def walk_chain_def)
  qed
  then show "(rv, heap st') = true_call E c (heap st)" "in_handler st' = in_handler st"
    "stream st' = stream st @
       (if in_handler st then [] else concat (recorded c rv (walk_chain st stack)))"
    "in_handler st \<Longrightarrow> st' = st\<lparr>heap := snd (true_call E c (heap st))\<rparr>"
    by simp_all
qed

lemma intercept_stream:
  assumes "intercept E stack c st = Inr (rv, st')"
  shows "in_handler st' = in_handler st"
    "stream st' = stream st @
       (if in_handler st then [] else concat (recorded c rv (walk_chain st stack)))"
proof -
  have "in_handler st' = in_handler st \<and>
    stream st' = stream st @
       (if in_handler st then [] else concat (recorded c rv (walk_chain st stack)))"
  proof (cases "stand_in c st")
    case False
    show ?thesis using intercept_Inr(2,3) [OF assms False] by simp
  next
    case True
    then obtain num sz where c: "c = Calloc num sz" by (auto simp: stand_in_iff)
    obtain r where e: "calloc E stack num sz st = Inr (r, st')" "rv = Ptr r"
      using assms c by (auto simp: with_ptr_def split: sum.splits)
    show ?thesis using calloc_stream [OF e(1)] c e(2) by (simp add: walk_chain_def)
  qed
  then show "in_handler st' = in_handler st"
    "stream st' = stream st @
       (if in_handler st then [] else concat (recorded c rv (walk_chain st stack)))"
    by simp_all
qed

lemma intercept_stand_in:
  assumes "intercept E stack (Calloc num sz) st = Inr (rv, st')"
    and "real_calloc st = Dummy_calloc"
  shows "rv = Ptr (dummy_buf E + 8 * dummy_calloc_offset st)" "heap st' = heap st"
    "in_handler st \<Longrightarrow> st' = st\<lparr>dummy_calloc_offset := dummy_calloc_offset st + num * sz\<rparr>"
    "\<not> MAX_SIZE \<le> dummy_calloc_offset st + num * sz"
proof -
  obtain r where e: "calloc E stack num sz st = Inr (r, st')" "rv = Ptr r"
    using assms(1) by (auto simp: with_ptr_def split: sum.splits)
  note f = calloc_dummy_Inr [OF e(1) assms(2)]
  show "rv = Ptr (dummy_buf E + 8 * dummy_calloc_offset st)" using f(1) e(2) by simp
  show "heap st' = heap st" using f(2) .
  show "in_handler st \<Longrightarrow> st' = st\<lparr>dummy_calloc_offset := dummy_calloc_offset st + num * sz\<rparr>"
    using f(5) .
  show "\<not> MAX_SIZE \<le> dummy_calloc_offset st + num * sz" using f(6) .
qed

lemma with_ptr_returns:
  "(\<exists>rv st'. with_ptr x = Inr (rv, st')) \<longleftrightarrow> (\<exists>r st'. x = Inr (r, st'))"
  by (cases x) (auto simp: with_ptr_def)

lemma intercept_returns:
  "(\<exists>rv st'. intercept E stack c st = Inr (rv, st')) \<longleftrightarrow> can_return E c st"
proof (cases c)
  case (Malloc sz)
  then show ?thesis by (simp add: with_ptr_returns malloc_returns can_return_def)
next
  case (Free ptr)
  have "(\<exists>rv st'. intercept E stack (Free ptr) st = Inr (rv, st')) \<longleftrightarrow> (\<exists>st'. free E ptr st = Inr st')"
    by (cases "free E ptr st") auto
  then show ?thesis using Free by (simp add: free_returns can_return_def)
next
  case (Realloc ptr sz)
  then show ?thesis by (simp add: with_ptr_returns realloc_returns can_return_def)
next
  case (Calloc num sz)
  show ?thesis
  proof (cases "real_calloc st = Dummy_calloc")
    case True
    then show ?thesis
      using Calloc by (simp add: with_ptr_returns calloc_dummy_returns can_return_def)
  next
    case False
    then show ?thesis
      using Calloc by (simp add: with_ptr_returns calloc_returns can_return_def)
  qed
next
  case (Posix_memalign memptr al sz)
  have "(\<exists>rv st'. intercept E stack (Posix_memalign memptr al sz) st = Inr (rv, st')) \<longleftrightarrow>
      (\<exists>r st'. posix_memalign E stack memptr al sz st = Inr (r, st'))"
    by (cases "posix_memalign E stack memptr al sz st") auto
  then show ?thesis
    using Posix_memalign posix_memalign_returns [of E stack memptr al sz st]
    by (simp add: can_return_def)
next
  case (Aligned_alloc al sz)
  then show ?thesis by (simp add: with_ptr_returns aligned_alloc_returns can_return_def)
next
  case (Valloc sz)
  then show ?thesis by (simp add: with_ptr_returns valloc_returns can_return_def)
qed

lemma intercept_steps_true:
  assumes "intercept E stack c st = Inr (rv, st')" and "\<not> in_handler st"
    and "\<not> stand_in c st"
  shows "\<exists>st1 s'. (if \<not> real_pointer c st then init E st else Inr st) = Inr st1
           \<and> record_event E stack c rv
                (st1\<lparr>heap := snd (true_call E c (heap st1)), in_handler := True\<rparr>) = Inr s'
           \<and> in_handler s' \<and> st' = s'\<lparr>in_handler := False\<rparr>"
proof (cases c)
  case (Malloc sz)
  then obtain r where e: "malloc E stack sz st = Inr (r, st')" "rv = Ptr r"
    using assms by (auto simp: with_ptr_def split: sum.splits)
  obtain st1 s' where s: "(if \<not> real_malloc st then init E st else Inr st) = Inr st1"
    "handleMalloc E stack (fst (libc_malloc E sz (heap st1))) sz
       (st1\<lparr>heap := snd (libc_malloc E sz (heap st1)), in_handler := True\<rparr>) = Inr s'"
    "in_handler s'" "st' = s'\<lparr>in_handler := False\<rparr>"
    using malloc_steps [OF e(1) assms(2)] by blast
  have "r = fst (libc_malloc E sz (heap st1))"
    using malloc_Inr(1) [OF e(1)] ensure_view(1) [OF s(1)] by simp
  then show ?thesis using s Malloc e(2) by (auto simp: ptr_result_def)
next
  case (Free ptr)
  then have e: "free E ptr st = Inr st'" "rv = Void"
    using assms by (auto split: sum.splits)
  show ?thesis using free_steps [OF e(1) assms(2)] Free e(2) by auto
next
  case (Realloc ptr sz)
  then obtain r where e: "realloc E stack ptr sz st = Inr (r, st')" "rv = Ptr r"
    using assms by (auto simp: with_ptr_def split: sum.splits)
  show ?thesis using realloc_steps [OF e(1) assms(2)] Realloc e(2)
    by (auto simp: ptr_result_def)
next
  case (Calloc num sz)
  then obtain r where e: "calloc E stack num sz st = Inr (r, st')" "rv = Ptr r"
    using assms by (auto simp: with_ptr_def split: sum.splits)
  have d: "real_calloc st \<noteq> Dummy_calloc" using assms(3) Calloc by simp
  obtain st1 s' where s: "(if \<not> (real_calloc st \<noteq> Nullptr) then init E st else Inr st) = Inr st1"
    "handleMalloc E stack (fst (libc_calloc E num sz (heap st1))) (num * sz)
       (st1\<lparr>heap := snd (libc_calloc E num sz (heap st1)), in_handler := True\<rparr>) = Inr s'"
    "in_handler s'" "st' = s'\<lparr>in_handler := False\<rparr>"
    using calloc_steps [OF e(1) assms(2) d] by blast
  have "r = fst (libc_calloc E num sz (heap st1))"
    using calloc_Inr(1) [OF e(1) d] ensure_view(1) [OF s(1)] by simp
  then show ?thesis using s Calloc e(2) by (auto simp: ptr_result_def)
next
  case (Posix_memalign memptr al sz)
  then obtain ret m' where e: "posix_memalign E stack memptr al sz st = Inr ((ret, m'), st')"
    "rv = Code ret m'"
    using assms by (auto split: sum.splits)
  obtain st1 s' where s: "(if \<not> real_posix_memalign st then init E st else Inr st) = Inr st1"
    "handleMalloc E stack (snd (fst (libc_posix_memalign E memptr al sz (heap st1)))) sz
       (st1\<lparr>heap := snd (libc_posix_memalign E memptr al sz (heap st1)), in_handler := True\<rparr>) = Inr s'"
    "in_handler s'" "st' = s'\<lparr>in_handler := False\<rparr>"
    using posix_memalign_steps [OF e(1) assms(2)] by blast
  have "(ret, m') = fst (libc_posix_memalign E memptr al sz (heap st1))"
    using posix_memalign_Inr(1) [OF e(1)] ensure_view(1) [OF s(1)] by simp
  then have "m' = snd (fst (libc_posix_memalign E memptr al sz (heap st1)))"
    by (metis snd_conv)
  then show ?thesis using s Posix_memalign e(2) by (auto simp: split_def)
next
  case (Aligned_alloc al sz)
  then obtain r where e: "aligned_alloc E stack al sz st = Inr (r, st')" "rv = Ptr r"
    using assms by (auto simp: with_ptr_def split: sum.splits)
  obtain st1 s' where s: "(if \<not> real_aligned_alloc st then init E st else Inr st) = Inr st1"
    "handleMalloc E stack (fst (libc_aligned_alloc E al sz (heap st1))) sz
       (st1\<lparr>heap := snd (libc_aligned_alloc E al sz (heap st1)), in_handler := True\<rparr>) = Inr s'"
    "in_handler s'" "st' = s'\<lparr>in_handler := False\<rparr>"
    using aligned_alloc_steps [OF e(1) assms(2)] by blast
  have "r = fst (libc_aligned_alloc E al sz (heap st1))"
    using aligned_alloc_Inr(1) [OF e(1)] ensure_view(1) [OF s(1)] by simp
  then show ?thesis using s Aligned_alloc e(2) by (auto simp: ptr_result_def)
next
  case (Valloc sz)
  then obtain r where e: "valloc E stack sz st = Inr (r, st')" "rv = Ptr r"
    using assms by (auto simp: with_ptr_def split: sum.splits)
  obtain st1 s' where s: "(if \<not> real_valloc st then init E st else Inr st) = Inr st1"
    "handleMalloc E stack (fst (libc_valloc E sz (heap st1))) sz
       (st1\<lparr>heap := snd (libc_valloc E sz (heap st1)), in_handler := True\<rparr>) = Inr s'"
    "in_handler s'" "st' = s'\<lparr>in_handler := False\<rparr>"
    using valloc_steps [OF e(1) assms(2)] by blast
  have "r = fst (libc_valloc E sz (heap st1))"
    using valloc_Inr(1) [OF e(1)] ensure_view(1) [OF s(1)] by simp
  then show ?thesis using s Valloc e(2) by (auto simp: ptr_result_def)
qed

lemma intercept_steps:
  assumes "intercept E stack c st = Inr (rv, st')" and "\<not> in_handler st"
  shows "\<exists>st1 st2 s'. (if \<not> real_pointer c st then init E st else Inr st) = Inr st1
           \<and> forward E c st1 = Inr (rv, st2)
           \<and> record_event E stack c rv (st2\<lparr>in_handler := True\<rparr>) = Inr s'
           \<and> in_handler s' \<and> st' = s'\<lparr>in_handler := False\<rparr>"
proof (cases "stand_in c st")
  case False
  obtain st1 s' where s: "(if \<not> real_pointer c st then init E st else Inr st) = Inr st1"
    "record_event E stack c rv
       (st1\<lparr>heap := snd (true_call E c (heap st1)), in_handler := True\<rparr>) = Inr s'"
    "in_handler s'" "st' = s'\<lparr>in_handler := False\<rparr>"
    using intercept_steps_true [OF assms False] by blast
  have "heap st1 = heap st" using ensure_view(1) [OF s(1)] .
  then have rv: "rv = fst (true_call E c (heap st1))"
    using intercept_Inr(1) [OF assms(1) False] by (metis fst_conv)
  have n: "\<not> stand_in c st1"
  proof (cases "real_pointer c st")
    case True
    then show ?thesis using s(1) False by simp
  next
    case p: False
    then have "init E st = Inr st1" using s(1) by simp
    then have "real_calloc st1 = Found_calloc" by (rule init_Inr(10))
    then show ?thesis by (simp add: stand_in_iff)
  qed
  have "forward E c st1 = Inr (rv, st1\<lparr>heap := snd (true_call E c (heap st1))\<rparr>)"
    using forward_true [OF n, of E] rv by simp
  then show ?thesis using s by auto
next
  case True
  then obtain num sz where c: "c = Calloc num sz" and d: "real_calloc st = Dummy_calloc"
    by (auto simp: stand_in_iff)
  obtain r where e: "calloc E stack num sz st = Inr (r, st')" "rv = Ptr r"
    using assms(1) c by (auto simp: with_ptr_def split: sum.splits)
  obtain st2 s' where s: "dummy_calloc E num sz st = Inr (r, st2)"
    "handleMalloc E stack r (num * sz) (st2\<lparr>in_handler := True\<rparr>) = Inr s'"
    "in_handler s'" "st' = s'\<lparr>in_handler := False\<rparr>"
    using calloc_dummy_steps [OF e(1) assms(2) d] by blast
  have "forward E c st = Inr (rv, st2)"
    using s(1) c d e(2) by (simp add: call_real_calloc_def with_ptr_def)
  then show ?thesis using s c d e(2) by auto
qed

lemma intercept_recursion:
  assumes "in_handler st" and "\<not> real_pointer c st"
  shows "intercept E stack c st = Inl (Exit 1 (''initialization recursion detected'' @ [newline]))"
  using assms
  by (cases c)
     (simp_all add: malloc_def free_def realloc_def calloc_def posix_memalign_def
        aligned_alloc_def valloc_def init_def with_ptr_def)

lemma recorded_count:
  assumes "intercept E stack c st = Inr (rv, st')"
  shows "length (recorded c rv ch) = (case c of Realloc ptr sz \<Rightarrow> 2 | _ \<Rightarrow> 1)"
  using assms by (cases c) (auto simp: with_ptr_def split: sum.splits)

lemma ctor_opens:
  assumes "can_open E (outputFileName E (next_thread_id st))"
  shows "ThreadData_ctor E st =
     Inr (\<lparr>ipCache = Map.empty, thread_id = next_thread_id st,
            out = \<lparr>path = outputFileName E (next_thread_id st), content = []\<rparr>\<rparr>,
          st\<lparr>next_thread_id := next_thread_id st + 1,
             threadData := Some \<lparr>ipCache = Map.empty, thread_id = next_thread_id st,
               out = \<lparr>path = outputFileName E (next_thread_id st), content = []\<rparr>\<rparr>\<rparr>)"
  using assms by (simp add: ThreadData_ctor_def Let_def fopen_wa outputFileName_def)

lemma ctor_fails:
  assumes "\<not> can_open E (outputFileName E (next_thread_id st))"
  shows "ThreadData_ctor E st =
     Inl (Exit 1 (''Failed to open output file: '' @ outputFileName E (next_thread_id st)
                  @ [newline]))"
  using assms by (simp add: ThreadData_ctor_def Let_def fopen_wa outputFileName_def)

section \<open>Evaluation of the example\<close>

lemmas eval_simps =
  malloc_def free_def init_def real_symbols_def handleMalloc_def handleFree_def
  threadData_use_def ThreadData_ctor_def fopen_def env_value_def to_string_int_def
  fmt_lu_def fmt_lx_def fmt_ld_def fmt_p_def fmt_dec.simps fmt_hex.simps digit_char_def
  print_caller_def fprintf_def is_operator_new_def buf_at_def is_entry_point_def
  strcmp_eq_def c_str_def NUL_def newline_def Let_def

lemma ex_walk_chain:
  "walk_chain ex_start ex_stack =
      [Definition 0 0x401136 ''A'' 0x1a, Definition 1 0x40115c ''B'' 0x12,
       Definition 2 0x401189 ''main'' 0]"
  by (simp add: walk_chain_def session_cache_def ex_start_def ex_stack_def eval_simps)

lemma ex_stream_start: "stream ex_start = []"
  by (simp add: stream_def ex_start_def)

lemma exhausts_dummy: "exhausts c st \<Longrightarrow> real_calloc st = Dummy_calloc"
  by (cases c) simp_all

lemma ex_can_return: "can_return ex_env c ex_start"
  using exhausts_dummy [of c ex_start]
  by (auto simp: can_return_def ex_start_def ex_env_def real_symbols_def)

lemma ex_busy_returns: "can_return ex_env c ex_busy"
  by (cases c) (simp_all add: can_return_def ex_busy_def)

lemma ex_init_returns: "can_return ex_env (Calloc 1 32) ex_init" "can_return ex_env (Calloc 2 8) ex_init"
  by (simp_all add: can_return_def ex_init_def MAX_SIZE_def)

lemma ex_init_view:
  "real_calloc ex_init = Dummy_calloc" "in_handler ex_init" "dummy_calloc_offset ex_init = 0"
  "heap ex_init = 0x7f0010" "stream ex_init = []"
  by (simp_all add: ex_init_def stream_def)

lemma ex_start_guard: "\<not> in_handler ex_start"
  by (simp add: ex_start_def)

lemma ex_start_heap: "heap ex_start = 0x7f0010"
  by (simp add: ex_start_def)

lemma ex_handleMalloc_returns: "\<exists>st'. handleMalloc ex_env ex_stack 0x7f0010 64 ex_start = Inr st'"
  by (simp add: handleMalloc_returns ex_env_def)

lemma ex_handleFree_returns: "\<exists>st'. handleFree ex_env 0x7f0010 ex_start = Inr st'"
  by (simp add: handleFree_returns ex_env_def)

lemmas ex_frames =
  ex_session_def ex_frame_new_def ex_frame_A_def ex_frame_B_def ex_frame_main_def
  ex_frame_start_def

lemma cache_ok_empty: "cache_ok Map.empty n"
  by (simp add: cache_ok_def)

lemma skipped_not_stop:
  assumes "cache_ok c n" and "frame_skipped c f"
  shows "\<not> frame_stops c f"
  using assms
  by (cases "c (frame_ip f)") (auto simp: frame_skipped_def frame_stops_def cache_ok_def)

lemma skipped_silent:
  assumes "frame_skipped (ipCache td) f"
  shows "out (fst (print_caller_loop [f] (td, n))) = out td"
  using assms
  by (cases "ipCache td (frame_ip f)") (simp_all add: frame_skipped_def Let_def)

lemma ex_names_agree:
  "names_agree (ipCache ex_session) [ex_frame_A, ex_frame_B, ex_frame_main, ex_frame_start]"
  by (simp add: names_agree_def ex_frames eval_simps)

lemma ex_entry_names:
  "is_entry_point (proc_name ex_frame_main)"
  "\<not> is_entry_point (proc_name ex_frame_A)" "\<not> is_entry_point (proc_name ex_frame_B)"
  by (simp_all add: ex_frames eval_simps)

section \<open>Claims\<close>

text \<open>
  C1, as the code has it. Whenever a call of an interception entry point returns and
  \<^verbatim>\<open>real_calloc\<close> is not the stand-in at a \<^verbatim>\<open>calloc\<close>, what it returns and what it
  leaves of the allocator is exactly what the corresponding true function produces from
  the same arguments and allocator state, whether the guard is engaged or not. A
  \<^verbatim>\<open>calloc\<close> call served by the stand-in returns the next piece of the static buffer and
  leaves the true allocator as it was. A call returns exactly when \<open>can_return\<close> holds;
  otherwise the process exits in \<^verbatim>\<open>init\<close>, in \<^verbatim>\<open>dummy_calloc\<close> or in the constructor
  of the session.
\<close>

theorem allocator_transparency:
  "(intercept E stack c st = Inr (rv, st') \<and> \<not> stand_in c st \<longrightarrow>
      (rv, heap st') = true_call E c (heap st))
   \<and> (intercept E stack c st = Inr (rv, st') \<and> stand_in c st \<longrightarrow>
      rv = Ptr (dummy_buf E + 8 * dummy_calloc_offset st) \<and> heap st' = heap st)
   \<and> ((\<exists>rv st'. intercept E stack c st = Inr (rv, st')) \<longleftrightarrow> can_return E c st)"
proof (intro conjI impI)
  assume "intercept E stack c st = Inr (rv, st') \<and> \<not> stand_in c st"
  then show "(rv, heap st') = true_call E c (heap st)"
    using intercept_Inr(1) [of E stack c st rv st'] by simp
next
  assume a: "intercept E stack c st = Inr (rv, st') \<and> stand_in c st"
  then obtain num sz where c: "c = Calloc num sz" and d: "real_calloc st = Dummy_calloc"
    by (auto simp: stand_in_iff)
  have i: "intercept E stack (Calloc num sz) st = Inr (rv, st')" using a c by simp
  show "rv = Ptr (dummy_buf E + 8 * dummy_calloc_offset st)"
    using intercept_stand_in(1) [OF i d] .
  show "heap st' = heap st" using intercept_stand_in(2) [OF i d] .
next
  show "(\<exists>rv st'. intercept E stack c st = Inr (rv, st')) \<longleftrightarrow> can_return E c st"
    by (rule intercept_returns)
qed

text \<open>
  The example process calls \<^verbatim>\<open>calloc(4, 16)\<close> as its first allocation: the call
  returns the address \<^verbatim>\<open>0x7f0010\<close> that the true allocator hands out. The call
  \<^verbatim>\<open>calloc(1, 32)\<close> that arrives while \<^verbatim>\<open>init\<close> is looking up the first symbol gets
  the start of the static buffer, and the true allocator is not touched.
\<close>

theorem allocator_transparency_witness:
  "\<not> stand_in (Calloc 4 16) ex_start \<and> can_return ex_env (Calloc 4 16) ex_start
   \<and> \<not> isl (intercept ex_env ex_stack (Calloc 4 16) ex_start)
   \<and> fst (projr (intercept ex_env ex_stack (Calloc 4 16) ex_start)) = Ptr 0x7f0010
   \<and> heap (snd (projr (intercept ex_env ex_stack (Calloc 4 16) ex_start))) = 0x7f0050
   \<and> true_call ex_env (Calloc 4 16) (heap ex_start) = (Ptr 0x7f0010, 0x7f0050)
   \<and> stand_in (Calloc 1 32) ex_init \<and> can_return ex_env (Calloc 1 32) ex_init
   \<and> \<not> isl (intercept ex_env ex_stack (Calloc 1 32) ex_init)
   \<and> fst (projr (intercept ex_env ex_stack (Calloc 1 32) ex_init)) = Ptr 0x6020a0
   \<and> heap (snd (projr (intercept ex_env ex_stack (Calloc 1 32) ex_init))) = 0x7f0010"
proof -
  note t = allocator_transparency [of ex_env ex_stack "Calloc 4 16" ex_start]
  have n: "\<not> stand_in (Calloc 4 16) ex_start" by (simp add: ex_start_def)
  have c: "can_return ex_env (Calloc 4 16) ex_start" by (rule ex_can_return)
  then obtain rv st' where i: "intercept ex_env ex_stack (Calloc 4 16) ex_start = Inr (rv, st')"
    using t by blast
  have v: "true_call ex_env (Calloc 4 16) (heap ex_start) = (Ptr 0x7f0010, 0x7f0050)"
    by (simp add: ptr_result_def ex_env_def ex_start_def)
  have "(rv, heap st') = true_call ex_env (Calloc 4 16) (heap ex_start)"
    using allocator_transparency [of ex_env ex_stack "Calloc 4 16" ex_start rv st'] i n by blast
  then have r: "rv = Ptr 0x7f0010" "heap st' = 0x7f0050" using v by simp_all
  have m: "stand_in (Calloc 1 32) ex_init" by (simp add: ex_init_view)
  have d: "can_return ex_env (Calloc 1 32) ex_init" by (rule ex_init_returns)
  then obtain rv2 st2 where j: "intercept ex_env ex_stack (Calloc 1 32) ex_init = Inr (rv2, st2)"
    using allocator_transparency [of ex_env ex_stack "Calloc 1 32" ex_init] by blast
  have "rv2 = Ptr (dummy_buf ex_env + 8 * dummy_calloc_offset ex_init) \<and> heap st2 = heap ex_init"
    using allocator_transparency [of ex_env ex_stack "Calloc 1 32" ex_init rv2 st2] j m by blast
  then have r2: "rv2 = Ptr 0x6020a0" "heap st2 = 0x7f0010"
    by (simp_all add: ex_init_view ex_env_def)
  show ?thesis
    using n c v r m d r2 by (simp add: i j del: intercept.simps true_call.simps stand_in.simps)
qed

text \<open>
  C1, as it is worded, holds of every call. The call \<^verbatim>\<open>calloc(1, 32)\<close> that arrives
  while \<^verbatim>\<open>init\<close> is looking up the first symbol returns the address of the static buffer
  of \<^verbatim>\<open>dummy_calloc\<close>, where the true \<^verbatim>\<open>calloc\<close> returns \<^verbatim>\<open>0x7f0010\<close>.
\<close>

theorem allocator_transparency_counterexample:
  "\<not> isl (intercept ex_env ex_stack (Calloc 1 32) ex_init)
   \<and> fst (projr (intercept ex_env ex_stack (Calloc 1 32) ex_init)) = Ptr 0x6020a0
   \<and> fst (true_call ex_env (Calloc 1 32) (heap ex_init)) = Ptr 0x7f0010
   \<and> fst (projr (intercept ex_env ex_stack (Calloc 1 32) ex_init)) \<noteq>
       fst (true_call ex_env (Calloc 1 32) (heap ex_init))"
proof -
  obtain rv st' where i: "intercept ex_env ex_stack (Calloc 1 32) ex_init = Inr (rv, st')"
    using intercept_returns [of ex_env ex_stack "Calloc 1 32" ex_init] ex_init_returns(1)
    by blast
  have r: "rv = Ptr 0x6020a0"
    using intercept_stand_in(1) [OF i ex_init_view(1)] by (simp add: ex_init_view ex_env_def)
  have v: "fst (true_call ex_env (Calloc 1 32) (heap ex_init)) = Ptr 0x7f0010"
    by (simp add: ptr_result_def ex_env_def ex_init_view)
  show ?thesis using r v by (simp add: i del: intercept.simps true_call.simps)
qed

text \<open>
  C2, as the code has it. A call that finds the guard engaged writes no event and changes
  nothing but the state of the function its \<^verbatim>\<open>real_*\<close> pointer designates, whose result
  it returns: that is the true function, unless the call is a \<^verbatim>\<open>calloc\<close> served by the
  stand-in. It returns exactly when the pointer is set and the stand-in is not exhausted;
  with the pointer null, \<^verbatim>\<open>init\<close> reports a recursion and ends the process.
  A call that finds the guard free makes the same call through the pointer, runs its
  recording step with the guard engaged, leaves the guard free, and extends the stream by
  exactly one record (two for \<^verbatim>\<open>realloc\<close>).
\<close>

theorem no_recursive_tracing:
  "(intercept E stack c st = Inr (rv, st') \<and> in_handler st \<and> \<not> stand_in c st \<longrightarrow>
      (rv, heap st') = true_call E c (heap st) \<and> st' = st\<lparr>heap := heap st'\<rparr>
      \<and> stream st' = stream st)
   \<and> (intercept E stack c st = Inr (rv, st') \<and> in_handler st \<and> stand_in c st \<longrightarrow>
      rv = Ptr (dummy_buf E + 8 * dummy_calloc_offset st)
      \<and> st' = st\<lparr>dummy_calloc_offset := dummy_calloc_offset st'\<rparr>
      \<and> stream st' = stream st)
   \<and> (intercept E stack c st = Inr (rv, st') \<and> \<not> in_handler st \<longrightarrow>
      (\<exists>st1 st2 s'. (if \<not> real_pointer c st then init E st else Inr st) = Inr st1
         \<and> forward E c st1 = Inr (rv, st2)
         \<and> record_event E stack c rv (st2\<lparr>in_handler := True\<rparr>) = Inr s'
         \<and> in_handler s' \<and> st' = s'\<lparr>in_handler := False\<rparr>)
      \<and> \<not> in_handler st'
      \<and> stream st' = stream st @ concat (recorded c rv (walk_chain st stack))
      \<and> length (recorded c rv (walk_chain st stack)) =
          (case c of Realloc ptr sz \<Rightarrow> 2 | _ \<Rightarrow> 1))
   \<and> (in_handler st \<longrightarrow>
        ((\<exists>rv st'. intercept E stack c st = Inr (rv, st')) \<longleftrightarrow>
           real_pointer c st \<and> \<not> exhausts c st))
   \<and> (in_handler st \<and> \<not> real_pointer c st \<longrightarrow>
        intercept E stack c st =
          Inl (Exit 1 (''initialization recursion detected'' @ [newline])))"
proof (intro conjI impI)
  assume a: "intercept E stack c st = Inr (rv, st') \<and> in_handler st \<and> \<not> stand_in c st"
  then have i: "intercept E stack c st = Inr (rv, st')" and g: "in_handler st"
    and n: "\<not> stand_in c st" by simp_all
  show "(rv, heap st') = true_call E c (heap st)" using intercept_Inr(1) [OF i n] .
  then show "st' = st\<lparr>heap := heap st'\<rparr>"
    using intercept_Inr(4) [OF i n g] by (metis snd_conv)
  show "stream st' = stream st" using intercept_stream(2) [OF i] g by simp
next
  assume a: "intercept E stack c st = Inr (rv, st') \<and> in_handler st \<and> stand_in c st"
  then have i: "intercept E stack c st = Inr (rv, st')" and g: "in_handler st" by simp_all
  from a obtain num sz where c: "c = Calloc num sz" and d: "real_calloc st = Dummy_calloc"
    by (auto simp: stand_in_iff)
  note f = intercept_stand_in [OF i [unfolded c] d]
  show "rv = Ptr (dummy_buf E + 8 * dummy_calloc_offset st)" using f(1) .
  show "st' = st\<lparr>dummy_calloc_offset := dummy_calloc_offset st'\<rparr>"
    using f(3) [OF g] by simp
  show "stream st' = stream st" using intercept_stream(2) [OF i] g by simp
next
  assume a: "intercept E stack c st = Inr (rv, st') \<and> \<not> in_handler st"
  then have i: "intercept E stack c st = Inr (rv, st')" and g: "\<not> in_handler st" by simp_all
  show "\<exists>st1 st2 s'. (if \<not> real_pointer c st then init E st else Inr st) = Inr st1
         \<and> forward E c st1 = Inr (rv, st2)
         \<and> record_event E stack c rv (st2\<lparr>in_handler := True\<rparr>) = Inr s'
         \<and> in_handler s' \<and> st' = s'\<lparr>in_handler := False\<rparr>"
    using intercept_steps [OF i g] .
  show "\<not> in_handler st'" using intercept_stream(1) [OF i] g by simp
  show "stream st' = stream st @ concat (recorded c rv (walk_chain st stack))"
    using intercept_stream(2) [OF i] g by simp
  show "length (recorded c rv (walk_chain st stack)) = (case c of Realloc ptr sz \<Rightarrow> 2 | _ \<Rightarrow> 1)"
    using recorded_count [OF i] .
next
  assume "in_handler st"
  then show "(\<exists>rv st'. intercept E stack c st = Inr (rv, st')) \<longleftrightarrow>
      real_pointer c st \<and> \<not> exhausts c st"
    by (simp only: intercept_returns can_return_def, simp)
next
  assume "in_handler st \<and> \<not> real_pointer c st"
  then show "intercept E stack c st =
      Inl (Exit 1 (''initialization recursion detected'' @ [newline]))"
    using intercept_recursion [of st c E stack] by simp
qed

text \<open>
  The same \<^verbatim>\<open>malloc(64)\<close> made inside the tracer and outside of it, and the calls
  \<^verbatim>\<open>calloc(2, 8)\<close> and \<^verbatim>\<open>valloc(64)\<close> that arrive while \<^verbatim>\<open>init\<close> is looking
  up the first symbol.
\<close>

theorem no_recursive_tracing_witness:
  "in_handler ex_busy \<and> \<not> stand_in (Malloc 64) ex_busy \<and> \<not> in_handler ex_start
   \<and> \<not> isl (intercept ex_env ex_stack (Malloc 64) ex_busy)
   \<and> fst (projr (intercept ex_env ex_stack (Malloc 64) ex_busy)) = Ptr 0x7f0010
   \<and> stream (snd (projr (intercept ex_env ex_stack (Malloc 64) ex_busy))) = stream ex_busy
   \<and> \<not> isl (intercept ex_env ex_stack (Malloc 64) ex_start)
   \<and> \<not> in_handler (snd (projr (intercept ex_env ex_stack (Malloc 64) ex_start)))
   \<and> stream (snd (projr (intercept ex_env ex_stack (Malloc 64) ex_start))) =
       ''+64:0x7f0010 0=401136@A+0x1a;1=40115c@B+0x12;2=401189@main+0x0;'' @ [newline]
   \<and> in_handler ex_init \<and> stand_in (Calloc 2 8) ex_init
   \<and> \<not> isl (intercept ex_env ex_stack (Calloc 2 8) ex_init)
   \<and> fst (projr (intercept ex_env ex_stack (Calloc 2 8) ex_init)) = Ptr 0x6020a0
   \<and> stream (snd (projr (intercept ex_env ex_stack (Calloc 2 8) ex_init))) = []
   \<and> \<not> real_pointer (Valloc 64) ex_init
   \<and> intercept ex_env ex_stack (Valloc 64) ex_init =
       Inl (Exit 1 (''initialization recursion detected'' @ [newline]))"
proof -
  have g: "in_handler ex_busy" "\<not> in_handler ex_start" "\<not> stand_in (Malloc 64) ex_busy"
    by (simp_all add: ex_busy_def ex_start_def)
  obtain rv st' where b: "intercept ex_env ex_stack (Malloc 64) ex_busy = Inr (rv, st')"
    using intercept_returns [of ex_env ex_stack "Malloc 64" ex_busy] ex_busy_returns by blast
  have "(rv, heap st') = true_call ex_env (Malloc 64) (heap ex_busy) \<and> stream st' = stream ex_busy"
    using no_recursive_tracing [of ex_env ex_stack "Malloc 64" ex_busy rv st'] b g(1) g(3)
    by blast
  then have b': "rv = Ptr 0x7f0010" "stream st' = stream ex_busy"
    by (simp_all add: ptr_result_def ex_env_def ex_busy_def)
  obtain rv2 st2 where s: "intercept ex_env ex_stack (Malloc 64) ex_start = Inr (rv2, st2)"
    using intercept_returns [of ex_env ex_stack "Malloc 64" ex_start] ex_can_return by blast
  have "\<not> stand_in (Malloc 64) ex_start" by simp
  then have r2: "rv2 = Ptr 0x7f0010"
    using intercept_Inr(1) [OF s] by (simp add: ptr_result_def ex_env_def ex_start_def)
  have "\<not> in_handler st2 \<and>
      stream st2 = stream ex_start @ concat (recorded (Malloc 64) rv2 (walk_chain ex_start ex_stack))"
    using no_recursive_tracing [of ex_env ex_stack "Malloc 64" ex_start rv2 st2] s g(2) by blast
  then have s': "\<not> in_handler st2"
    "stream st2 = ''+64:0x7f0010 0=401136@A+0x1a;1=40115c@B+0x12;2=401189@main+0x0;'' @ [newline]"
    by (simp_all add: r2 ex_walk_chain ex_stream_start alloc_record_def eval_simps)
  have m: "in_handler ex_init" "stand_in (Calloc 2 8) ex_init" by (simp_all add: ex_init_view)
  obtain rv3 st3 where j: "intercept ex_env ex_stack (Calloc 2 8) ex_init = Inr (rv3, st3)"
    using intercept_returns [of ex_env ex_stack "Calloc 2 8" ex_init] ex_init_returns(2)
    by blast
  have "rv3 = Ptr (dummy_buf ex_env + 8 * dummy_calloc_offset ex_init)
      \<and> stream st3 = stream ex_init"
    using no_recursive_tracing [of ex_env ex_stack "Calloc 2 8" ex_init rv3 st3] j m by blast
  then have j': "rv3 = Ptr 0x6020a0" "stream st3 = []"
    by (simp_all add: ex_init_view ex_env_def)
  have p: "\<not> real_pointer (Valloc 64) ex_init" by (simp add: ex_init_def)
  have k: "intercept ex_env ex_stack (Valloc 64) ex_init =
       Inl (Exit 1 (''initialization recursion detected'' @ [newline]))"
    using no_recursive_tracing [of ex_env ex_stack "Valloc 64" ex_init] m(1) p by blast
  show ?thesis
    using g b' s' m j' p
    by (simp add: b s j k del: intercept.simps stand_in.simps real_pointer.simps)
qed

text \<open>
  C2, as it is worded, has the true function invoked whenever the guard is engaged. The
  call \<^verbatim>\<open>calloc(2, 8)\<close> that arrives while \<^verbatim>\<open>init\<close> is looking up the first symbol
  finds the guard engaged and returns, but the true \<^verbatim>\<open>calloc\<close> has not run: the
  allocator is as it was, where the true call would have moved it to \<^verbatim>\<open>0x7f0020\<close>, and
  the address returned is not the one the true call returns. The call \<^verbatim>\<open>malloc(64)\<close>
  that arrives at the same moment finds \<^verbatim>\<open>real_malloc\<close> null and the guard engaged:
  \<^verbatim>\<open>init\<close> ends the process.
\<close>

theorem no_recursive_tracing_counterexample:
  "in_handler ex_init
   \<and> \<not> isl (intercept ex_env ex_stack (Calloc 2 8) ex_init)
   \<and> fst (projr (intercept ex_env ex_stack (Calloc 2 8) ex_init)) = Ptr 0x6020a0
   \<and> heap (snd (projr (intercept ex_env ex_stack (Calloc 2 8) ex_init))) = 0x7f0010
   \<and> true_call ex_env (Calloc 2 8) (heap ex_init) = (Ptr 0x7f0010, 0x7f0020)
   \<and> (fst (projr (intercept ex_env ex_stack (Calloc 2 8) ex_init)),
       heap (snd (projr (intercept ex_env ex_stack (Calloc 2 8) ex_init)))) \<noteq>
       true_call ex_env (Calloc 2 8) (heap ex_init)
   \<and> intercept ex_env ex_stack (Malloc 64) ex_init =
       Inl (Exit 1 (''initialization recursion detected'' @ [newline]))"
proof -
  obtain rv st' where i: "intercept ex_env ex_stack (Calloc 2 8) ex_init = Inr (rv, st')"
    using intercept_returns [of ex_env ex_stack "Calloc 2 8" ex_init] ex_init_returns(2)
    by blast
  have r: "rv = Ptr 0x6020a0" "heap st' = 0x7f0010"
    using intercept_stand_in(1,2) [OF i ex_init_view(1)]
    by (simp_all add: ex_init_view ex_env_def)
  have v: "true_call ex_env (Calloc 2 8) (heap ex_init) = (Ptr 0x7f0010, 0x7f0020)"
    by (simp add: ptr_result_def ex_env_def ex_init_view)
  have e: "intercept ex_env ex_stack (Malloc 64) ex_init =
       Inl (Exit 1 (''initialization recursion detected'' @ [newline]))"
    by (simp add: malloc_def init_def with_ptr_def ex_init_def)
  show ?thesis
    using r v e ex_init_view(2) by (simp add: i del: intercept.simps true_call.simps)
qed

text \<open>
  C3, as the code has it. Every allocation event that is written extends the stream by
  \<^verbatim>\<open>+\<close>, the size as \<^verbatim>\<open>%ld\<close> prints it, \<^verbatim>\<open>:\<close>, the pointer as \<^verbatim>\<open>%p\<close> prints
  it, one space, the elements of the reference chain, and a newline, and by nothing else;
  every free event by \<^verbatim>\<open>-\<close>, the pointer and a newline. Both handlers write their
  event whenever the session of the thread exists.
\<close>

theorem event_wire_format:
  "(handleMalloc E stack ptr sz st = Inr st' \<longrightarrow>
      stream st' = stream st @ ''+'' @ fmt_ld sz @ '':'' @ fmt_p ptr @ '' ''
                   @ concat (map render (walk_chain st stack)) @ [newline])
   \<and> (handleFree E ptr st = Inr st' \<longrightarrow>
      stream st' = stream st @ ''-'' @ fmt_p ptr @ [newline])
   \<and> (threadData st \<noteq> None \<longrightarrow>
        (\<exists>st'. handleMalloc E stack ptr sz st = Inr st') \<and> (\<exists>st'. handleFree E ptr st = Inr st'))"
proof (intro conjI impI)
  assume h: "handleMalloc E stack ptr sz st = Inr st'"
  show "stream st' = stream st @ ''+'' @ fmt_ld sz @ '':'' @ fmt_p ptr @ '' ''
                   @ concat (map render (walk_chain st stack)) @ [newline]"
    using handleMalloc_Inr(1) [OF h] by (simp add: alloc_record_def walk_chain_def)
next
  assume h: "handleFree E ptr st = Inr st'"
  show "stream st' = stream st @ ''-'' @ fmt_p ptr @ [newline]"
    using handleFree_Inr(1) [OF h] by (simp add: free_record_def)
next
  assume "threadData st \<noteq> None"
  then show "\<exists>st'. handleMalloc E stack ptr sz st = Inr st'"
    by (simp add: handleMalloc_returns)
next
  assume "threadData st \<noteq> None"
  then show "\<exists>st'. handleFree E ptr st = Inr st'"
    by (simp add: handleFree_returns)
qed

text \<open>
  The allocation of 64 bytes at \<^verbatim>\<open>0x7f0010\<close> from \<open>A\<close>, \<open>B\<close>, \<open>main\<close>, and the
  free of the same address.
\<close>

theorem event_wire_format_witness:
  "\<not> isl (handleMalloc ex_env ex_stack 0x7f0010 64 ex_start)
   \<and> stream (projr (handleMalloc ex_env ex_stack 0x7f0010 64 ex_start)) =
       ''+64:0x7f0010 0=401136@A+0x1a;1=40115c@B+0x12;2=401189@main+0x0;'' @ [newline]
   \<and> \<not> isl (handleFree ex_env 0x7f0010 ex_start)
   \<and> stream (projr (handleFree ex_env 0x7f0010 ex_start)) = ''-0x7f0010'' @ [newline]"
proof -
  obtain st1 where m: "handleMalloc ex_env ex_stack 0x7f0010 64 ex_start = Inr st1"
    using ex_handleMalloc_returns by blast
  obtain st2 where f: "handleFree ex_env 0x7f0010 ex_start = Inr st2"
    using ex_handleFree_returns by blast
  have "stream st1 = stream ex_start @ ''+'' @ fmt_ld 64 @ '':'' @ fmt_p 0x7f0010 @ '' ''
                   @ concat (map render (walk_chain ex_start ex_stack)) @ [newline]"
    using event_wire_format [of ex_env ex_stack "0x7f0010" 64 ex_start st1] m by blast
  then have a: "stream st1 =
       ''+64:0x7f0010 0=401136@A+0x1a;1=40115c@B+0x12;2=401189@main+0x0;'' @ [newline]"
    unfolding ex_walk_chain ex_stream_start by (simp add: eval_simps)
  have "stream st2 = stream ex_start @ ''-'' @ fmt_p 0x7f0010 @ [newline]"
    using event_wire_format [of ex_env ex_stack "0x7f0010" 64 ex_start st2] f by blast
  then have b: "stream st2 = ''-0x7f0010'' @ [newline]"
    unfolding ex_stream_start by (simp add: eval_simps)
  show ?thesis using a b by (simp add: m f)
qed

text \<open>
  C3, as it is worded, has the reference chain follow the pointer at once. On the
  allocation of the example the text written differs from that record: the code puts a
  space between the pointer and the first element of the chain. The size and the pointer
  are written by \<^verbatim>\<open>%ld\<close> and \<^verbatim>\<open>%p\<close>: a request of \<^verbatim>\<open>SIZE_MAX\<close> bytes that
  the allocator answers with the null pointer is recorded with the size \<^verbatim>\<open>-1\<close> and
  the pointer \<^verbatim>\<open>(nil)\<close>.
\<close>

theorem event_wire_format_counterexample:
  "\<not> isl (handleMalloc ex_env ex_stack 0x7f0010 64 ex_start)
   \<and> stream (projr (handleMalloc ex_env ex_stack 0x7f0010 64 ex_start)) =
       ''+64:0x7f0010 0=401136@A+0x1a;1=40115c@B+0x12;2=401189@main+0x0;'' @ [newline]
   \<and> stream ex_start @ claimed_alloc_record 0x7f0010 64 (walk_chain ex_start ex_stack) =
       ''+64:0x7f00100=401136@A+0x1a;1=40115c@B+0x12;2=401189@main+0x0;'' @ [newline]
   \<and> stream (projr (handleMalloc ex_env ex_stack 0x7f0010 64 ex_start)) \<noteq>
       stream ex_start @ claimed_alloc_record 0x7f0010 64 (walk_chain ex_start ex_stack)
   \<and> \<not> isl (handleMalloc ex_env ex_stack 0 (- 1) ex_start)
   \<and> stream (projr (handleMalloc ex_env ex_stack 0 (- 1) ex_start)) =
       ''+-1:(nil) 0=401136@A+0x1a;1=40115c@B+0x12;2=401189@main+0x0;'' @ [newline]"
proof -
  obtain st1 where m: "handleMalloc ex_env ex_stack 0x7f0010 64 ex_start = Inr st1"
    using ex_handleMalloc_returns by blast
  have "stream st1 = stream ex_start @ alloc_record 0x7f0010 64 (walk_chain ex_start ex_stack)"
    using handleMalloc_Inr(1) [OF m] by (simp add: walk_chain_def)
  then have a: "stream st1 =
       ''+64:0x7f0010 0=401136@A+0x1a;1=40115c@B+0x12;2=401189@main+0x0;'' @ [newline]"
    unfolding ex_walk_chain ex_stream_start by (simp add: alloc_record_def eval_simps)
  have b: "stream ex_start @ claimed_alloc_record 0x7f0010 64 (walk_chain ex_start ex_stack) =
       ''+64:0x7f00100=401136@A+0x1a;1=40115c@B+0x12;2=401189@main+0x0;'' @ [newline]"
    unfolding ex_walk_chain ex_stream_start by (simp add: claimed_alloc_record_def eval_simps)
  have d: "stream st1 \<noteq>
       stream ex_start @ claimed_alloc_record 0x7f0010 64 (walk_chain ex_start ex_stack)"
    unfolding a b by simp
  obtain st2 where n: "handleMalloc ex_env ex_stack 0 (- 1) ex_start = Inr st2"
    using handleMalloc_returns [of ex_env ex_stack 0 "- 1" ex_start] by (auto simp: ex_env_def)
  have "stream st2 = stream ex_start @ alloc_record 0 (- 1) (walk_chain ex_start ex_stack)"
    using handleMalloc_Inr(1) [OF n] by (simp add: walk_chain_def)
  then have c: "stream st2 =
       ''+-1:(nil) 0=401136@A+0x1a;1=40115c@B+0x12;2=401189@main+0x0;'' @ [newline]"
    unfolding ex_walk_chain ex_stream_start by (simp add: alloc_record_def eval_simps)
  show ?thesis using a b c d by (simp add: m n)
qed

text \<open>
  C4. Realloc decomposition: a \<^verbatim>\<open>realloc\<close> call made with the guard free, once it
  returns, has extended the stream by exactly two records, in this order: the free record
  of the old pointer, then the allocation record of the returned pointer and the new
  size. Nothing depends on the two pointers being different. The call returns whenever
  \<open>can_return\<close> holds.
\<close>

theorem realloc_two_events:
  "(realloc E stack ptr sz st = Inr (r, st') \<and> \<not> in_handler st \<longrightarrow>
      r = fst (libc_realloc E ptr sz (heap st))
      \<and> stream st' = stream st @ free_record ptr @ alloc_record r sz (walk_chain st stack)
      \<and> recorded (Realloc ptr sz) (Ptr r) (walk_chain st stack) =
          [free_record ptr, alloc_record r sz (walk_chain st stack)])
   \<and> (can_return E (Realloc ptr sz) st \<longrightarrow> (\<exists>r st'. realloc E stack ptr sz st = Inr (r, st')))"
proof (intro conjI impI)
  assume "realloc E stack ptr sz st = Inr (r, st') \<and> \<not> in_handler st"
  then have i: "realloc E stack ptr sz st = Inr (r, st')" and g: "\<not> in_handler st" by simp_all
  show "r = fst (libc_realloc E ptr sz (heap st))" using realloc_Inr(1) [OF i] .
  show "stream st' = stream st @ free_record ptr @ alloc_record r sz (walk_chain st stack)"
    using realloc_Inr(4) [OF i] g by (simp add: walk_chain_def)
  show "recorded (Realloc ptr sz) (Ptr r) (walk_chain st stack) =
          [free_record ptr, alloc_record r sz (walk_chain st stack)]"
    by simp
next
  assume "can_return E (Realloc ptr sz) st"
  then show "\<exists>r st'. realloc E stack ptr sz st = Inr (r, st')"
    by (simp add: realloc_returns can_return_def)
qed

text \<open>
  The example process calls \<^verbatim>\<open>realloc(0x7f0010, 128)\<close> and the true allocator
  returns the same address.
\<close>

theorem realloc_two_events_witness:
  "\<not> in_handler ex_start \<and> can_return ex_env (Realloc 0x7f0010 128) ex_start
   \<and> \<not> isl (realloc ex_env ex_stack 0x7f0010 128 ex_start)
   \<and> fst (projr (realloc ex_env ex_stack 0x7f0010 128 ex_start)) = 0x7f0010
   \<and> stream (snd (projr (realloc ex_env ex_stack 0x7f0010 128 ex_start))) =
       ''-0x7f0010'' @ [newline] @
       ''+128:0x7f0010 0=401136@A+0x1a;1=40115c@B+0x12;2=401189@main+0x0;'' @ [newline]"
proof -
  have c: "can_return ex_env (Realloc 0x7f0010 128) ex_start" by (rule ex_can_return)
  then obtain r st' where i: "realloc ex_env ex_stack 0x7f0010 128 ex_start = Inr (r, st')"
    using realloc_two_events [of ex_env ex_stack "0x7f0010" 128 ex_start] by blast
  have "r = fst (libc_realloc ex_env 0x7f0010 128 (heap ex_start))
      \<and> stream st' = stream ex_start @ free_record 0x7f0010
          @ alloc_record r 128 (walk_chain ex_start ex_stack)"
    using realloc_two_events [of ex_env ex_stack "0x7f0010" 128 ex_start r st'] i ex_start_guard
    by blast
  then have r: "r = 0x7f0010"
    and s: "stream st' = stream ex_start @ free_record 0x7f0010
          @ alloc_record r 128 (walk_chain ex_start ex_stack)"
    by (simp_all add: ex_env_def ex_start_heap)
  have "stream st' = ''-0x7f0010'' @ [newline] @
       ''+128:0x7f0010 0=401136@A+0x1a;1=40115c@B+0x12;2=401189@main+0x0;'' @ [newline]"
    unfolding s r ex_walk_chain ex_stream_start
    by (simp add: alloc_record_def free_record_def eval_simps)
  then show ?thesis using c ex_start_guard r by (simp add: i)
qed

text \<open>
  C9. The interposed \<^verbatim>\<open>posix_memalign\<close>, called with the guard free, returns the
  code of the true function unchanged, whatever it is, and records an allocation event
  made of the requested size and of the value the out-parameter holds after the true
  call: the event does not depend on the code, so it is also written when the code is not
  zero. The call returns whenever \<open>can_return\<close> holds.
\<close>

theorem posix_memalign_records_on_failure:
  "(posix_memalign E stack memptr alignment sz st = Inr ((ret, memptr'), st')
      \<and> \<not> in_handler st \<longrightarrow>
      (ret, memptr') = fst (libc_posix_memalign E memptr alignment sz (heap st))
      \<and> stream st' = stream st @ alloc_record memptr' sz (walk_chain st stack))
   \<and> (can_return E (Posix_memalign memptr alignment sz) st \<longrightarrow>
        (\<exists>r st'. posix_memalign E stack memptr alignment sz st = Inr (r, st')))"
proof (intro conjI impI)
  assume "posix_memalign E stack memptr alignment sz st = Inr ((ret, memptr'), st')
      \<and> \<not> in_handler st"
  then have i: "posix_memalign E stack memptr alignment sz st = Inr ((ret, memptr'), st')"
    and g: "\<not> in_handler st" by simp_all
  show r: "(ret, memptr') = fst (libc_posix_memalign E memptr alignment sz (heap st))"
    using posix_memalign_Inr(1) [OF i] .
  then have "memptr' = snd (fst (libc_posix_memalign E memptr alignment sz (heap st)))"
    by (metis snd_conv)
  then show "stream st' = stream st @ alloc_record memptr' sz (walk_chain st stack)"
    using posix_memalign_Inr(4) [OF i] g by (simp add: walk_chain_def)
next
  assume "can_return E (Posix_memalign memptr alignment sz) st"
  then show "\<exists>r st'. posix_memalign E stack memptr alignment sz st = Inr (r, st')"
    using posix_memalign_returns [of E stack memptr alignment sz st]
    by (simp add: can_return_def)
qed

text \<open>
  The example allocator refuses the alignment 3 with the code 22 and leaves the
  out-parameter as it was, here \<^verbatim>\<open>0xdead0\<close>.
\<close>

theorem posix_memalign_records_on_failure_witness:
  "\<not> in_handler ex_start \<and> can_return ex_env (Posix_memalign 0xdead0 3 64) ex_start
   \<and> \<not> isl (posix_memalign ex_env ex_stack 0xdead0 3 64 ex_start)
   \<and> fst (projr (posix_memalign ex_env ex_stack 0xdead0 3 64 ex_start)) = (22, 0xdead0)
   \<and> stream (snd (projr (posix_memalign ex_env ex_stack 0xdead0 3 64 ex_start))) =
       ''+64:0xdead0 0=401136@A+0x1a;1=40115c@B+0x12;2=401189@main+0x0;'' @ [newline]"
proof -
  have c: "can_return ex_env (Posix_memalign 0xdead0 3 64) ex_start" by (rule ex_can_return)
  then obtain r st' where i: "posix_memalign ex_env ex_stack 0xdead0 3 64 ex_start = Inr (r, st')"
    using posix_memalign_records_on_failure [of ex_env ex_stack "0xdead0" 3 64 ex_start] by blast
  obtain ret m' where r: "r = (ret, m')" by (cases r)
  have "(ret, m') = fst (libc_posix_memalign ex_env 0xdead0 3 64 (heap ex_start))
      \<and> stream st' = stream ex_start @ alloc_record m' 64 (walk_chain ex_start ex_stack)"
    using posix_memalign_records_on_failure [of ex_env ex_stack "0xdead0" 3 64 ex_start ret m' st']
      i r ex_start_guard
    by blast
  then have v: "ret = 22" "m' = 0xdead0"
    and s: "stream st' = stream ex_start @ alloc_record m' 64 (walk_chain ex_start ex_stack)"
    by (simp_all add: ex_env_def ex_start_heap)
  have "stream st' =
       ''+64:0xdead0 0=401136@A+0x1a;1=40115c@B+0x12;2=401189@main+0x0;'' @ [newline]"
    unfolding s v ex_walk_chain ex_stream_start
    by (simp add: alloc_record_def eval_simps)
  then show ?thesis using c ex_start_guard v by (simp add: i r)
qed

text \<open>
  C10. The interposed \<^verbatim>\<open>calloc\<close>, called with the guard free, records a single
  allocation event whose size field is the product \<open>num * sz\<close> taken modulo \<open>2 ^ 64\<close>
  (and printed with \<^verbatim>\<open>%ld\<close>), not the pair. Whenever the product of the two numbers
  does not fit 64 bits, the recorded size is not that product, read as an unsigned or as
  a signed number. The call returns whenever \<open>can_return\<close> holds.
\<close>

theorem calloc_records_wrapped_product:
  "(calloc E stack num sz st = Inr (r, st') \<and> \<not> in_handler st \<longrightarrow>
      stream st' = stream st @ alloc_record r (num * sz) (walk_chain st stack)
      \<and> alloc_record r (num * sz) (walk_chain st stack) =
          ''+'' @ fmt_ld (num * sz) @ '':'' @ fmt_p r @ '' ''
          @ concat (map render (walk_chain st stack)) @ [newline])
   \<and> unat (num * sz) = (unat num * unat sz) mod 2 ^ 64
   \<and> (2 ^ 64 \<le> unat num * unat sz \<longrightarrow>
        unat (num * sz) \<noteq> unat num * unat sz
        \<and> sint (num * sz) \<noteq> int (unat num * unat sz))
   \<and> (can_return E (Calloc num sz) st \<longrightarrow> (\<exists>r st'. calloc E stack num sz st = Inr (r, st')))"
proof -
  have s: "stream st' = stream st @ alloc_record r (num * sz) (walk_chain st stack)"
    if "calloc E stack num sz st = Inr (r, st') \<and> \<not> in_handler st"
    using calloc_stream(2) [of E stack num sz st r st'] that
    by (simp add: walk_chain_def)
  have u: "unat (num * sz) = (unat num * unat sz) mod 2 ^ 64"
    by (simp add: unat_word_ariths)
  have o: "unat (num * sz) \<noteq> unat num * unat sz \<and> sint (num * sz) \<noteq> int (unat num * unat sz)"
    if big: "2 ^ 64 \<le> unat num * unat sz"
  proof
    have "unat (num * sz) < 2 ^ 64" using u by simp
    then show "unat (num * sz) \<noteq> unat num * unat sz" using big by simp
    have "sint (num * sz) < 2 ^ 63" using sint_lt [of "num * sz"] by simp
    moreover have "(2::int) ^ 64 \<le> int (unat num * unat sz)"
      using big by (metis of_nat_le_iff of_nat_numeral of_nat_power)
    ultimately show "sint (num * sz) \<noteq> int (unat num * unat sz)" by simp
  qed
  have t: "\<exists>r st'. calloc E stack num sz st = Inr (r, st')" if "can_return E (Calloc num sz) st"
    using that intercept_returns [of E stack "Calloc num sz" st]
    by (simp add: with_ptr_returns)
  show ?thesis using s u o t by (simp add: alloc_record_def)
qed

theorem calloc_records_wrapped_product_witness:
  "\<not> isl (calloc ex_env ex_stack 0x8000000000000000 2 ex_start)
   \<and> \<not> in_handler ex_start
   \<and> (2::nat) ^ 64 \<le> unat (0x8000000000000000 :: size_t) * unat (2 :: size_t)
   \<and> stream (snd (projr (calloc ex_env ex_stack 0x8000000000000000 2 ex_start))) =
       ''+0:0x7f0010 0=401136@A+0x1a;1=40115c@B+0x12;2=401189@main+0x0;'' @ [newline]
   \<and> unat (0x8000000000000000 * 2 :: size_t) \<noteq> unat (0x8000000000000000 :: size_t) * unat (2 :: size_t)"
proof -
  note t = calloc_records_wrapped_product [of ex_env ex_stack "0x8000000000000000" 2 ex_start]
  obtain r st' where c: "calloc ex_env ex_stack 0x8000000000000000 2 ex_start = Inr (r, st')"
    using t ex_can_return by blast
  have "real_calloc ex_start \<noteq> Dummy_calloc" by (simp add: ex_start_def)
  then have r: "r = 0x7f0010"
    using calloc_Inr(1) [OF c] by (simp add: ex_env_def ex_start_heap)
  have b: "(2::nat) ^ 64 \<le> unat (0x8000000000000000 :: size_t) * unat (2 :: size_t)" by simp
  have "stream st' = stream ex_start
      @ alloc_record r (0x8000000000000000 * 2) (walk_chain ex_start ex_stack)"
    using calloc_records_wrapped_product [of ex_env ex_stack "0x8000000000000000" 2 ex_start r st']
      c ex_start_guard by blast
  then have "stream st' =
       ''+0:0x7f0010 0=401136@A+0x1a;1=40115c@B+0x12;2=401189@main+0x0;'' @ [newline]"
    unfolding r ex_walk_chain ex_stream_start by (simp add: alloc_record_def eval_simps)
  moreover have "unat (0x8000000000000000 * 2 :: size_t)
      \<noteq> unat (0x8000000000000000 :: size_t) * unat (2 :: size_t)"
    using t b by blast
  ultimately show ?thesis using ex_start_guard b by (simp add: c)
qed

text \<open>
  C5. A name buffer passes the test of the loop exactly when the C string in it is
  \<^verbatim>\<open>_Znwm\<close> or \<^verbatim>\<open>_Znam\<close>, and a frame with such a name, met for the first time, is
  cached with the skip flag. The text a walk writes is the rendering of its reference
  chain, and no element of the chain carries the identifier of a cached frame whose skip
  flag is set. A skipped frame writes nothing and never ends the walk: the loop goes on
  with the frames after it. (\<^verbatim>\<open>print_caller\<close> is this loop on the frames after the two of
  the tracer.)
\<close>

theorem skip_frame_exclusion:
  "(is_operator_new nm \<longleftrightarrow> c_str nm = ''_Znwm'' \<or> c_str nm = ''_Znam'')
   \<and> (ipCache td (frame_ip f) = None \<and> is_operator_new (proc_name f) \<longrightarrow>
        ipCache (fst (print_caller_loop (f # fs) (td, n))) (frame_ip f) =
          Some \<lparr>id' = n, skip = True, stop = False\<rparr>)
   \<and> content (out (fst (print_caller_loop fs (td, n)))) =
        content (out td) @ concat (map render (reference_chain (ipCache td) n fs))
   \<and> (cache_ok (ipCache td) n \<and> unat n + length fs < 2 ^ 64 \<longrightarrow>
        (\<forall>el \<in> set (reference_chain (ipCache td) n fs). \<forall>p e.
            ipCache (fst (print_caller_loop fs (td, n))) p = Some e \<and> skip e \<longrightarrow>
            element_id el \<noteq> id' e))
   \<and> (cache_ok (ipCache td) n \<and> frame_skipped (ipCache td) f \<longrightarrow>
        \<not> frame_stops (ipCache td) f
        \<and> out (fst (print_caller_loop [f] (td, n))) = out td
        \<and> print_caller_loop (f # fs) (td, n) =
            print_caller_loop fs (print_caller_loop [f] (td, n)))"
proof (intro conjI impI ballI allI)
  show "is_operator_new nm \<longleftrightarrow> c_str nm = ''_Znwm'' \<or> c_str nm = ''_Znam''"
    by (rule is_operator_new_iff)
next
  assume "ipCache td (frame_ip f) = None \<and> is_operator_new (proc_name f)"
  then show "ipCache (fst (print_caller_loop (f # fs) (td, n))) (frame_ip f) =
          Some \<lparr>id' = n, skip = True, stop = False\<rparr>"
    using loop_first_entry [of td f fs n] by simp
next
  show "content (out (fst (print_caller_loop fs (td, n)))) =
        content (out td) @ concat (map render (reference_chain (ipCache td) n fs))"
    by (rule loop_content)
next
  fix el p e
  assume "cache_ok (ipCache td) n \<and> unat n + length fs < 2 ^ 64"
    and "el \<in> set (reference_chain (ipCache td) n fs)"
    and "ipCache (fst (print_caller_loop fs (td, n))) p = Some e \<and> skip e"
  then show "element_id el \<noteq> id' e"
    using chain_excludes_skipped [of td n fs el p e] by blast
next
  assume a: "cache_ok (ipCache td) n \<and> frame_skipped (ipCache td) f"
  then show n: "\<not> frame_stops (ipCache td) f" using skipped_not_stop by blast
  show "out (fst (print_caller_loop [f] (td, n))) = out td"
    using a skipped_silent by blast
  show "print_caller_loop (f # fs) (td, n) = print_caller_loop fs (print_caller_loop [f] (td, n))"
    using n by (simp only: loop_Cons [of f fs td n] if_False)
qed

text \<open>
  A first walk through \<^verbatim>\<open>operator new\<close>, \<open>A\<close> and \<open>main\<close>: the frame of the operator
  takes the identifier 0 and is not written, the walk goes on to \<open>A\<close> and \<open>main\<close>.
\<close>

theorem skip_frame_exclusion_witness:
  "is_operator_new (proc_name ex_frame_new)
   \<and> ipCache ex_session (frame_ip ex_frame_new) = None
   \<and> cache_ok (ipCache ex_session) 0
   \<and> frame_skipped (ipCache ex_session) ex_frame_new
   \<and> ipCache (fst (print_caller_loop [ex_frame_new, ex_frame_A, ex_frame_main, ex_frame_start]
                     (ex_session, 0))) (frame_ip ex_frame_new) =
       Some \<lparr>id' = 0, skip = True, stop = False\<rparr>
   \<and> reference_chain (ipCache ex_session) 0
        [ex_frame_new, ex_frame_A, ex_frame_main, ex_frame_start] =
       [Definition 1 0x401136 ''A'' 0x1a, Definition 2 0x401189 ''main'' 0]
   \<and> content (out (fst (print_caller_loop [ex_frame_new, ex_frame_A, ex_frame_main, ex_frame_start]
                     (ex_session, 0)))) = ''1=401136@A+0x1a;2=401189@main+0x0;''
   \<and> element_id (Definition 1 0x401136 ''A'' 0x1a) \<noteq> 0
   \<and> element_id (Definition 2 0x401189 ''main'' 0) \<noteq> 0
   \<and> print_caller_loop [ex_frame_new, ex_frame_A, ex_frame_main, ex_frame_start] (ex_session, 0) =
       print_caller_loop [ex_frame_A, ex_frame_main, ex_frame_start]
         (print_caller_loop [ex_frame_new] (ex_session, 0))"
proof -
  let ?fs = "[ex_frame_A, ex_frame_main, ex_frame_start]"
  note t = skip_frame_exclusion [of "proc_name ex_frame_new" ex_session ex_frame_new ?fs 0]
  have new: "is_operator_new (proc_name ex_frame_new)"
    using t by (simp add: ex_frame_new_def c_str_def NUL_def)
  have none: "ipCache ex_session (frame_ip ex_frame_new) = None" by (simp add: ex_session_def)
  have ok: "cache_ok (ipCache ex_session) 0" by (simp add: ex_session_def cache_ok_empty)
  have sk: "frame_skipped (ipCache ex_session) ex_frame_new"
    using new none by (simp add: frame_skipped_def)
  have e: "ipCache (fst (print_caller_loop (ex_frame_new # ?fs) (ex_session, 0)))
      (frame_ip ex_frame_new) = Some \<lparr>id' = 0, skip = True, stop = False\<rparr>"
    using t new none by blast
  have ch: "reference_chain (ipCache ex_session) 0 (ex_frame_new # ?fs) =
       [Definition 1 0x401136 ''A'' 0x1a, Definition 2 0x401189 ''main'' 0]"
    by (simp add: ex_frames eval_simps)
  have "content (out (fst (print_caller_loop (ex_frame_new # ?fs) (ex_session, 0)))) =
      content (out ex_session)
      @ concat (map render (reference_chain (ipCache ex_session) 0 (ex_frame_new # ?fs)))"
    using skip_frame_exclusion [of "proc_name ex_frame_new" ex_session ex_frame_new
        "ex_frame_new # ?fs" 0] by blast
  then have tx: "content (out (fst (print_caller_loop (ex_frame_new # ?fs) (ex_session, 0)))) =
      ''1=401136@A+0x1a;2=401189@main+0x0;''"
    unfolding ch by (simp add: ex_session_def eval_simps)
  have "length (ex_frame_new # ?fs) = 4" by simp
  then have bound: "unat (0 :: size_t) + length (ex_frame_new # ?fs) < 2 ^ 64" by simp
  have ex: "\<forall>el \<in> set (reference_chain (ipCache ex_session) 0 (ex_frame_new # ?fs)). \<forall>p e.
      ipCache (fst (print_caller_loop (ex_frame_new # ?fs) (ex_session, 0))) p = Some e \<and> skip e
      \<longrightarrow> element_id el \<noteq> id' e"
    using skip_frame_exclusion [of "proc_name ex_frame_new" ex_session ex_frame_new
        "ex_frame_new # ?fs" 0] ok bound by blast
  have i1: "element_id (Definition 1 0x401136 ''A'' 0x1a) \<noteq> 0"
    using ex e unfolding ch by fastforce
  have i2: "element_id (Definition 2 0x401189 ''main'' 0) \<noteq> 0"
    using ex e unfolding ch by fastforce
  have go: "print_caller_loop (ex_frame_new # ?fs) (ex_session, 0) =
       print_caller_loop ?fs (print_caller_loop [ex_frame_new] (ex_session, 0))"
    using t ok sk by blast
  show ?thesis using new none ok sk e ch tx i1 i2 go by blast
qed

text \<open>
  C7. An instruction pointer met for the first time gets the current value of the global
  counter as its identifier (an identifier no cached instruction pointer has, in every
  cache the loop has built), the counter moves on, and the frame, if it is not skipped,
  is written as a definition record. No later walk changes the entry. Any later
  observation of the same instruction pointer, by the same thread, writes only that
  identifier in decimal and \<^verbatim>\<open>;\<close> (nothing for a skipped frame) and changes neither
  the cache nor the counter.
\<close>

theorem frame_identifier_stability:
  "(ipCache td (frame_ip f) = None \<longrightarrow>
      print_caller_loop [f] (td, n) =
        ((if is_operator_new (proc_name f)
          then td\<lparr>ipCache := (ipCache td)(frame_ip f \<mapsto> \<lparr>id' = n, skip = True, stop = False\<rparr>)\<rparr>
          else fprintf (fmt_lu n @ ''='' @ fmt_lx (frame_ip f) @ ''@'' @ c_str (proc_name f)
                        @ ''+0x'' @ fmt_lx (proc_offset f) @ '';'')
                 (td\<lparr>ipCache := (ipCache td)(frame_ip f \<mapsto>
                       \<lparr>id' = n, skip = False, stop = is_entry_point (proc_name f)\<rparr>)\<rparr>)),
         n + 1))
   \<and> (cache_ok (ipCache td) n \<longrightarrow> (\<forall>p e. ipCache td p = Some e \<longrightarrow> id' e \<noteq> n))
   \<and> (ipCache td p = Some e \<longrightarrow> ipCache (fst (print_caller_loop fs (td, n))) p = Some e)
   \<and> (ipCache td (frame_ip g) = Some e \<longrightarrow>
        print_caller_loop [g] (td, n) =
          ((if skip e then td else fprintf (fmt_lu (id' e) @ '';'') td), n))
   \<and> (ipCache td (frame_ip f) = None \<and> frame_ip g = frame_ip f \<longrightarrow>
        print_caller_loop [g] (print_caller_loop fs' (print_caller_loop (f # fs) (td, n))) =
          ((if is_operator_new (proc_name f)
            then fst (print_caller_loop fs' (print_caller_loop (f # fs) (td, n)))
            else fprintf (fmt_lu n @ '';'')
                   (fst (print_caller_loop fs' (print_caller_loop (f # fs) (td, n))))),
           snd (print_caller_loop fs' (print_caller_loop (f # fs) (td, n)))))"
proof (intro conjI impI allI)
  assume "ipCache td (frame_ip f) = None"
  then show "print_caller_loop [f] (td, n) =
        ((if is_operator_new (proc_name f)
          then td\<lparr>ipCache := (ipCache td)(frame_ip f \<mapsto> \<lparr>id' = n, skip = True, stop = False\<rparr>)\<rparr>
          else fprintf (fmt_lu n @ ''='' @ fmt_lx (frame_ip f) @ ''@'' @ c_str (proc_name f)
                        @ ''+0x'' @ fmt_lx (proc_offset f) @ '';'')
                 (td\<lparr>ipCache := (ipCache td)(frame_ip f \<mapsto>
                       \<lparr>id' = n, skip = False, stop = is_entry_point (proc_name f)\<rparr>)\<rparr>)),
         n + 1)"
    by (rule loop_miss)
next
  fix p e
  assume "cache_ok (ipCache td) n" and "ipCache td p = Some e"
  then show "id' e \<noteq> n" by (rule cache_ok_fresh)
next
  assume "ipCache td p = Some e"
  then show "ipCache (fst (print_caller_loop fs (td, n))) p = Some e" by (rule loop_stable)
next
  assume "ipCache td (frame_ip g) = Some e"
  then show "print_caller_loop [g] (td, n) =
          ((if skip e then td else fprintf (fmt_lu (id' e) @ '';'') td), n)"
    by (rule loop_hit)
next
  assume a: "ipCache td (frame_ip f) = None \<and> frame_ip g = frame_ip f"
  let ?e = "\<lparr>id' = n, skip = is_operator_new (proc_name f),
           stop = (\<not> is_operator_new (proc_name f) \<and> is_entry_point (proc_name f))\<rparr>"
  obtain td1 n1 where s1: "print_caller_loop (f # fs) (td, n) = (td1, n1)" by fastforce
  obtain td2 n2 where s2: "print_caller_loop fs' (td1, n1) = (td2, n2)" by fastforce
  have "ipCache td1 (frame_ip f) = Some ?e"
    using loop_first_entry [of td f fs n] a s1 by simp
  then have "ipCache td2 (frame_ip g) = Some ?e"
    using loop_stable [of td1 "frame_ip f" ?e fs' n1] s2 a by simp
  then have "print_caller_loop [g] (td2, n2) =
      ((if is_operator_new (proc_name f) then td2 else fprintf (fmt_lu n @ '';'') td2), n2)"
    using loop_hit [of td2 g ?e n2] by simp
  then show "print_caller_loop [g] (print_caller_loop fs' (print_caller_loop (f # fs) (td, n))) =
          ((if is_operator_new (proc_name f)
            then fst (print_caller_loop fs' (print_caller_loop (f # fs) (td, n)))
            else fprintf (fmt_lu n @ '';'')
                   (fst (print_caller_loop fs' (print_caller_loop (f # fs) (td, n))))),
           snd (print_caller_loop fs' (print_caller_loop (f # fs) (td, n))))"
    by (simp only: s1 s2 fst_conv snd_conv)
qed

text \<open>
  A first walk through \<open>A\<close>, \<open>B\<close> and \<open>main\<close>, then a second observation of the
  instruction pointer of \<open>A\<close>: the identifier 0 again, as \<^verbatim>\<open>0;\<close>, and the counter
  stays at 3.
\<close>

theorem frame_identifier_stability_witness:
  "ipCache ex_session (frame_ip ex_frame_A) = None
   \<and> cache_ok (ipCache ex_session) 0
   \<and> print_caller_loop [ex_frame_A] (ex_session, 0) =
       (fprintf ''0=401136@A+0x1a;''
          (ex_session\<lparr>ipCache := (ipCache ex_session)(0x401136 \<mapsto>
             \<lparr>id' = 0, skip = False, stop = False\<rparr>)\<rparr>), 1)
   \<and> ipCache (fst (print_caller_loop [ex_frame_A, ex_frame_B, ex_frame_main] (ex_session, 0)))
        0x401136 = Some \<lparr>id' = 0, skip = False, stop = False\<rparr>
   \<and> content (out (fst (print_caller_loop [ex_frame_A]
        (print_caller_loop [] (print_caller_loop [ex_frame_A, ex_frame_B, ex_frame_main]
           (ex_session, 0)))))) =
       ''0=401136@A+0x1a;1=40115c@B+0x12;2=401189@main+0x0;0;''
   \<and> snd (print_caller_loop [ex_frame_A]
        (print_caller_loop [] (print_caller_loop [ex_frame_A, ex_frame_B, ex_frame_main]
           (ex_session, 0)))) = 3"
proof -
  let ?w = "print_caller_loop [] (print_caller_loop [ex_frame_A, ex_frame_B, ex_frame_main]
           (ex_session, 0))"
  note t = frame_identifier_stability [of ex_session ex_frame_A 0 "frame_ip ex_frame_A"
      "\<lparr>id' = 0, skip = False, stop = False\<rparr>" "[ex_frame_B, ex_frame_main]" ex_frame_A "[]"]
  have none: "ipCache ex_session (frame_ip ex_frame_A) = None" by (simp add: ex_session_def)
  have ok: "cache_ok (ipCache ex_session) 0" by (simp add: ex_session_def cache_ok_empty)
  have nn: "\<not> is_operator_new (proc_name ex_frame_A)"
    by (simp add: ex_frame_A_def eval_simps)
  have first: "print_caller_loop [ex_frame_A] (ex_session, 0) =
       (fprintf ''0=401136@A+0x1a;''
          (ex_session\<lparr>ipCache := (ipCache ex_session)(0x401136 \<mapsto>
             \<lparr>id' = 0, skip = False, stop = False\<rparr>)\<rparr>), 1)"
    using t none by (simp add: ex_frame_A_def eval_simps)
  have again: "print_caller_loop [ex_frame_A] ?w = (fprintf (fmt_lu 0 @ '';'') (fst ?w), snd ?w)"
    using t none nn by simp
  have w: "content (out (fst ?w)) = ''0=401136@A+0x1a;1=40115c@B+0x12;2=401189@main+0x0;''"
    "snd ?w = 3"
    "ipCache (fst (print_caller_loop [ex_frame_A, ex_frame_B, ex_frame_main] (ex_session, 0)))
        0x401136 = Some \<lparr>id' = 0, skip = False, stop = False\<rparr>"
    by (simp_all add: ex_frames eval_simps)
  have "content (out (fst (print_caller_loop [ex_frame_A] ?w))) =
       ''0=401136@A+0x1a;1=40115c@B+0x12;2=401189@main+0x0;0;''"
    "snd (print_caller_loop [ex_frame_A] ?w) = 3"
    unfolding again using w by (simp_all add: eval_simps)
  then show ?thesis using none ok first w(3) by blast
qed

text \<open>
  C6. The name test for a stop holds exactly for \<^verbatim>\<open>main\<close> and
  \<^verbatim>\<open>_GLOBAL__sub_I_main\<close>. A frame that is a stop ends the walk after its own record:
  met for the first time with such a name it is written as a definition, cached with the
  stop flag it is written as a reference unless skipped, and the frames after it play no
  part. When every instruction pointer has one symbol and the cache agrees with it
  (\<open>names_agree\<close>), the walk over any stack is the walk over the stack cut after the
  first frame named as an entry point, and it does reach that frame. When unwinding ends
  first, the loop returns with every frame walked; with fewer than two frames to step
  over \<^verbatim>\<open>print_caller\<close> changes nothing; and \<^verbatim>\<open>handleMalloc\<close> completes for every
  stack once the session exists: the walk has no failure.
\<close>

theorem stop_frame_termination:
  "(is_entry_point nm \<longleftrightarrow> c_str nm = ''main'' \<or> c_str nm = ''_GLOBAL__sub_I_main'')
   \<and> (ipCache td (frame_ip f) = None \<and> is_entry_point (proc_name f) \<longrightarrow>
        print_caller_loop (f # rest) (td, n) =
          (fprintf (fmt_lu n @ ''='' @ fmt_lx (frame_ip f) @ ''@'' @ c_str (proc_name f)
                    @ ''+0x'' @ fmt_lx (proc_offset f) @ '';'')
             (td\<lparr>ipCache := (ipCache td)(frame_ip f \<mapsto>
                   \<lparr>id' = n, skip = False, stop = True\<rparr>)\<rparr>),
           n + 1))
   \<and> (ipCache td (frame_ip f) = Some e \<and> stop e \<longrightarrow>
        print_caller_loop (f # rest) (td, n) =
          ((if skip e then td else fprintf (fmt_lu (id' e) @ '';'') td), n))
   \<and> (names_agree (ipCache td) (pre @ f # rest) \<and> is_entry_point (proc_name f) \<longrightarrow>
        print_caller_loop (pre @ f # rest) (td, n) = print_caller_loop (pre @ [f]) (td, n))
   \<and> (names_agree (ipCache td) (pre @ f # rest)
        \<and> (\<forall>g \<in> set pre. \<not> is_entry_point (proc_name g)) \<and> is_entry_point (proc_name f) \<longrightarrow>
        (\<exists>e. ipCache (fst (print_caller_loop (pre @ f # rest) (td, n))) (frame_ip f) = Some e
              \<and> stop e))
   \<and> print_caller_loop [] (td, n) = (td, n)
   \<and> (length frames < 2 \<longrightarrow> print_caller frames (td, n) = (td, n))
   \<and> (names_agree (ipCache td) fs \<and> (\<forall>g \<in> set fs. \<not> is_entry_point (proc_name g)) \<longrightarrow>
        frame_ip ` set fs \<subseteq> dom (ipCache (fst (print_caller_loop fs (td, n)))))
   \<and> (threadData st \<noteq> None \<longrightarrow> (\<exists>st'. handleMalloc E stack ptr sz st = Inr st'))"
proof (intro conjI impI)
  show "is_entry_point nm \<longleftrightarrow> c_str nm = ''main'' \<or> c_str nm = ''_GLOBAL__sub_I_main''"
    by (rule is_entry_point_iff)
next
  assume "ipCache td (frame_ip f) = None \<and> is_entry_point (proc_name f)"
  then show "print_caller_loop (f # rest) (td, n) =
          (fprintf (fmt_lu n @ ''='' @ fmt_lx (frame_ip f) @ ''@'' @ c_str (proc_name f)
                    @ ''+0x'' @ fmt_lx (proc_offset f) @ '';'')
             (td\<lparr>ipCache := (ipCache td)(frame_ip f \<mapsto>
                   \<lparr>id' = n, skip = False, stop = True\<rparr>)\<rparr>),
           n + 1)"
    using loop_entry_miss [of td f rest n] by blast
next
  assume "ipCache td (frame_ip f) = Some e \<and> stop e"
  then show "print_caller_loop (f # rest) (td, n) =
          ((if skip e then td else fprintf (fmt_lu (id' e) @ '';'') td), n)"
    using loop_entry_hit [of td f e rest n] by blast
next
  assume "names_agree (ipCache td) (pre @ f # rest) \<and> is_entry_point (proc_name f)"
  then show "print_caller_loop (pre @ f # rest) (td, n) = print_caller_loop (pre @ [f]) (td, n)"
    using loop_stops_at_entry [of td pre f rest n] by blast
next
  assume "names_agree (ipCache td) (pre @ f # rest)
        \<and> (\<forall>g \<in> set pre. \<not> is_entry_point (proc_name g)) \<and> is_entry_point (proc_name f)"
  then show "\<exists>e. ipCache (fst (print_caller_loop (pre @ f # rest) (td, n))) (frame_ip f) = Some e
              \<and> stop e"
    using loop_reaches_entry [of td pre f rest n] by blast
next
  show "print_caller_loop [] (td, n) = (td, n)" by simp
next
  assume "length frames < 2"
  then show "print_caller frames (td, n) = (td, n)" by (rule print_caller_short)
next
  assume "names_agree (ipCache td) fs \<and> (\<forall>g \<in> set fs. \<not> is_entry_point (proc_name g))"
  then show "frame_ip ` set fs \<subseteq> dom (ipCache (fst (print_caller_loop fs (td, n))))"
    using loop_append [of td fs "[]" n] by simp
next
  assume "threadData st \<noteq> None"
  then show "\<exists>st'. handleMalloc E stack ptr sz st = Inr st'"
    by (simp add: handleMalloc_returns)
qed

text \<open>
  The walk \<open>A\<close>, \<open>B\<close>, \<open>main\<close>, \<^verbatim>\<open>__libc_start_main\<close> of a new session ends with the
  record of \<open>main\<close>; the frame after it is neither written nor cached. A stack of one
  frame, and an empty one, leave a record without a chain.
\<close>

theorem stop_frame_termination_witness:
  "names_agree (ipCache ex_session) ([ex_frame_A, ex_frame_B] @ ex_frame_main # [ex_frame_start])
   \<and> is_entry_point (proc_name ex_frame_main)
   \<and> print_caller_loop ([ex_frame_A, ex_frame_B] @ ex_frame_main # [ex_frame_start]) (ex_session, 0) =
       print_caller_loop ([ex_frame_A, ex_frame_B] @ [ex_frame_main]) (ex_session, 0)
   \<and> content (out (fst (print_caller_loop
         ([ex_frame_A, ex_frame_B] @ ex_frame_main # [ex_frame_start]) (ex_session, 0)))) =
       ''0=401136@A+0x1a;1=40115c@B+0x12;2=401189@main+0x0;''
   \<and> ipCache (fst (print_caller_loop
         ([ex_frame_A, ex_frame_B] @ ex_frame_main # [ex_frame_start]) (ex_session, 0)))
       (frame_ip ex_frame_start) = None
   \<and> print_caller [ex_frame_A] (ex_session, 0) = (ex_session, 0)
   \<and> frame_ip ` set [ex_frame_A, ex_frame_B] \<subseteq>
       dom (ipCache (fst (print_caller_loop [ex_frame_A, ex_frame_B] (ex_session, 0))))
   \<and> threadData ex_traced \<noteq> None
   \<and> \<not> isl (handleMalloc ex_env [] 0x7f0010 64 ex_traced)
   \<and> stream (projr (handleMalloc ex_env [] 0x7f0010 64 ex_traced)) = ''+64:0x7f0010 '' @ [newline]"
proof -
  note t = stop_frame_termination [where td = ex_session and n = 0 and f = ex_frame_main
      and pre = "[ex_frame_A, ex_frame_B]" and rest = "[ex_frame_start]"
      and frames = "[ex_frame_A]" and fs = "[ex_frame_A, ex_frame_B]"
      and st = ex_traced and E = ex_env and stack = "[]" and ptr = "0x7f0010" and sz = 64]
  have ag: "names_agree (ipCache ex_session)
      ([ex_frame_A, ex_frame_B] @ ex_frame_main # [ex_frame_start])"
    using ex_names_agree by simp
  have ag2: "names_agree (ipCache ex_session) [ex_frame_A, ex_frame_B]"
    using ex_names_agree by (rule agree_sub) auto
  have cut: "print_caller_loop ([ex_frame_A, ex_frame_B] @ ex_frame_main # [ex_frame_start])
      (ex_session, 0) = print_caller_loop ([ex_frame_A, ex_frame_B] @ [ex_frame_main]) (ex_session, 0)"
    using t ag ex_entry_names(1) by blast
  have v: "content (out (fst (print_caller_loop ([ex_frame_A, ex_frame_B] @ [ex_frame_main])
        (ex_session, 0)))) = ''0=401136@A+0x1a;1=40115c@B+0x12;2=401189@main+0x0;''"
    "ipCache (fst (print_caller_loop ([ex_frame_A, ex_frame_B] @ [ex_frame_main]) (ex_session, 0)))
       (frame_ip ex_frame_start) = None"
    by (simp_all add: ex_frames eval_simps)
  have short: "print_caller [ex_frame_A] (ex_session, 0) = (ex_session, 0)"
    using t by simp
  have all: "frame_ip ` set [ex_frame_A, ex_frame_B] \<subseteq>
       dom (ipCache (fst (print_caller_loop [ex_frame_A, ex_frame_B] (ex_session, 0))))"
    using t ag2 ex_entry_names(2,3) by simp
  have se: "threadData ex_traced \<noteq> None" by (simp add: ex_traced_def)
  then obtain st' where h: "handleMalloc ex_env [] 0x7f0010 64 ex_traced = Inr st'"
    using t by blast
  have "stream st' = stream ex_traced @ alloc_record 0x7f0010 64 (walk_chain ex_traced [])"
    using handleMalloc_Inr(1) [OF h] by (simp add: walk_chain_def)
  then have tx: "stream st' = ''+64:0x7f0010 '' @ [newline]"
    by (simp add: walk_chain_def alloc_record_def stream_def ex_traced_def ex_session_def eval_simps)
  show ?thesis
    using ag ex_entry_names(1) cut v short all se tx unfolding cut by (simp add: h)
qed

text \<open>
  C8, as the code has it. The first use of \<^verbatim>\<open>threadData\<close> in a thread runs the
  constructor. The file it opens is named by the value of
  \<^verbatim>\<open>DUMP_MALLOC_TRACE_OUTPUT\<close>, the process id, a dot and the sequence number of the
  thread. When the file cannot be opened the process ends with status 1 and the
  diagnostic \<^verbatim>\<open>Failed to open output file: <name>\<close>. When it can, the stream starts
  empty whatever the file held: the mode string \<^verbatim>\<open>"wa"\<close> opens for writing from an
  emptied file, it does not append.
\<close>

theorem session_file_contract:
  "outputFileName E tid =
     env_value E ''DUMP_MALLOC_TRACE_OUTPUT'' @ to_string_int (getpid E) @ ''.'' @ fmt_lu tid
   \<and> (threadData st = None \<longrightarrow> threadData_use E st = ThreadData_ctor E st)
   \<and> (can_open E (outputFileName E (next_thread_id st)) \<longrightarrow>
        (\<exists>td st'. ThreadData_ctor E st = Inr (td, st')
           \<and> threadData st' = Some td
           \<and> thread_id td = next_thread_id st
           \<and> path (out td) = outputFileName E (next_thread_id st)
           \<and> content (out td) = []))
   \<and> (\<not> can_open E (outputFileName E (next_thread_id st)) \<longrightarrow>
        ThreadData_ctor E st =
          Inl (Exit 1 (''Failed to open output file: '' @ outputFileName E (next_thread_id st)
                       @ [newline])))
   \<and> fopen_kind ''wa'' = Some Open_truncate"
proof (intro conjI impI)
  show "outputFileName E tid =
     env_value E ''DUMP_MALLOC_TRACE_OUTPUT'' @ to_string_int (getpid E) @ ''.'' @ fmt_lu tid"
    by (simp add: outputFileName_def)
next
  assume "threadData st = None"
  then show "threadData_use E st = ThreadData_ctor E st" by (simp add: threadData_use_def)
next
  assume "can_open E (outputFileName E (next_thread_id st))"
  then show "\<exists>td st'. ThreadData_ctor E st = Inr (td, st')
           \<and> threadData st' = Some td
           \<and> thread_id td = next_thread_id st
           \<and> path (out td) = outputFileName E (next_thread_id st)
           \<and> content (out td) = []"
    by (simp add: ctor_opens)
next
  assume "\<not> can_open E (outputFileName E (next_thread_id st))"
  then show "ThreadData_ctor E st =
          Inl (Exit 1 (''Failed to open output file: '' @ outputFileName E (next_thread_id st)
                       @ [newline]))"
    by (rule ctor_fails)
next
  show "fopen_kind ''wa'' = Some Open_truncate" by simp
qed

text \<open>
  The first thread of process 4242 finds a trace file of an earlier run under its name.
  Opened for append (mode \<^verbatim>\<open>"a"\<close>) the stream would start with the old record; the
  constructor starts it empty, and after the first \<^verbatim>\<open>malloc\<close> the file holds the new
  record alone.
\<close>

theorem session_file_contract_witness:
  "threadData ex_start = None
   \<and> outputFileName ex_env_stale (next_thread_id ex_start) = ''/tmp/trace.4242.0''
   \<and> can_open ex_env_stale ''/tmp/trace.4242.0''
   \<and> existing ex_env_stale ''/tmp/trace.4242.0'' = Some (''+8:0x7e0000 '' @ [newline])
   \<and> fopen ex_env_stale ''/tmp/trace.4242.0'' ''a'' =
       Some \<lparr>path = ''/tmp/trace.4242.0'', content = ''+8:0x7e0000 '' @ [newline]\<rparr>
   \<and> \<not> isl (threadData_use ex_env_stale ex_start)
   \<and> out (fst (projr (threadData_use ex_env_stale ex_start))) =
       \<lparr>path = ''/tmp/trace.4242.0'', content = []\<rparr>
   \<and> stream (snd (projr (malloc ex_env_stale ex_stack 64 ex_start))) =
       ''+64:0x7f0010 0=401136@A+0x1a;1=40115c@B+0x12;2=401189@main+0x0;'' @ [newline]"
proof -
  note t = session_file_contract [of ex_env_stale "next_thread_id ex_start" ex_start]
  have none: "threadData ex_start = None" by (simp add: ex_start_def)
  have nm: "outputFileName ex_env_stale (next_thread_id ex_start) = ''/tmp/trace.4242.0''"
    using t by (simp add: ex_env_stale_def ex_env_def ex_start_def eval_simps)
  have op: "can_open ex_env_stale ''/tmp/trace.4242.0''"
    by (simp add: ex_env_stale_def ex_env_def)
  have old: "existing ex_env_stale ''/tmp/trace.4242.0'' = Some (''+8:0x7e0000 '' @ [newline])"
    by (simp add: ex_env_stale_def)
  have app: "fopen ex_env_stale ''/tmp/trace.4242.0'' ''a'' =
       Some \<lparr>path = ''/tmp/trace.4242.0'', content = ''+8:0x7e0000 '' @ [newline]\<rparr>"
    by (simp add: fopen_def old op)
  obtain td st' where c: "ThreadData_ctor ex_env_stale ex_start = Inr (td, st')"
    "path (out td) = ''/tmp/trace.4242.0''" "content (out td) = []"
    using t op nm by auto
  have u: "threadData_use ex_env_stale ex_start = Inr (td, st')"
    using t none c(1) by simp
  have o: "out td = \<lparr>path = ''/tmp/trace.4242.0'', content = []\<rparr>"
    using c(2,3) by (cases "out td") simp
  have m: "stream (snd (projr (malloc ex_env_stale ex_stack 64 ex_start))) =
       ''+64:0x7f0010 0=401136@A+0x1a;1=40115c@B+0x12;2=401189@main+0x0;'' @ [newline]"
    by (simp add: eval_simps ex_env_stale_def ex_env_def ex_stack_def ex_start_def stream_def)
  show ?thesis using none nm op old app o m by (simp add: u)
qed

end
